theory Spec2Isabelle
  imports Complex_Main
begin

section \<open>JavaScript values\<close>

text \<open>
  A JavaScript number, as far as the platform compares and stores it: NaN or a finite
  value. Infinities and the negative zero are not modelled.
\<close>

datatype number = NaN | Num real

text \<open>
  A parameter value of a status message (types.ts: string | number | boolean; a key
  whose value is undefined is an absent key of the map).
\<close>

datatype pvalue = PStr string | PNum number | PBool bool

type_synonym IntelliCenterParams = "string \<rightharpoonup> pvalue"

text \<open>The truthiness test of \<^verbatim>\<open>if (x)\<close>, \<^verbatim>\<open>!x\<close> and \<^verbatim>\<open>x && y\<close>.\<close>

fun truthyNum :: "number \<Rightarrow> bool" where
  "truthyNum NaN = False"
| "truthyNum (Num r) = (r \<noteq> 0)"

fun truthy :: "pvalue \<Rightarrow> bool" where
  "truthy (PStr s) = (s \<noteq> [])"
| "truthy (PNum n) = truthyNum n"
| "truthy (PBool b) = b"

definition truthyOpt :: "pvalue option \<Rightarrow> bool" where
  "truthyOpt v = (case v of None \<Rightarrow> False | Some x \<Rightarrow> truthy x)"

definition truthyNumOpt :: "number option \<Rightarrow> bool" where
  "truthyNumOpt v = (case v of None \<Rightarrow> False | Some x \<Rightarrow> truthyNum x)"

text \<open>Comparisons of numbers: every comparison with NaN is false.\<close>

fun numEq :: "number \<Rightarrow> real \<Rightarrow> bool" where
  "numEq NaN c = False"
| "numEq (Num r) c = (r = c)"

fun numGe :: "number \<Rightarrow> real \<Rightarrow> bool" where
  "numGe NaN c = False"
| "numGe (Num r) c = (r \<ge> c)"

fun numLt :: "number \<Rightarrow> number \<Rightarrow> bool" where
  "numLt (Num a) (Num b) = (a < b)"
| "numLt _ _ = False"

fun numGt :: "number \<Rightarrow> number \<Rightarrow> bool" where
  "numGt (Num a) (Num b) = (a > b)"
| "numGt _ _ = False"

text \<open>\<^verbatim>\<open>String(n)\<close> for a non-negative integer: its decimal digits.\<close>

definition digitChar :: "nat \<Rightarrow> char" where
  "digitChar d = ''0123456789'' ! d"



section \<open>Constants (constants.ts) and protocol types (types.ts)\<close>

definition STATUS_KEY :: string where "STATUS_KEY = ''STATUS''"
definition ACT_KEY :: string where "ACT_KEY = ''ACT''"
definition USE_KEY :: string where "USE_KEY = ''USE''"


definition DISCOVER_COMMANDS :: "string list" where
  "DISCOVER_COMMANDS =
     [''CIRCUITS'', ''PUMPS'', ''CHEMS'', ''VALVES'', ''HEATERS'', ''SENSORS'', ''GROUPS'']"

text \<open>The string enums of types.ts, by their wire values.\<close>

definition CircuitType_IntelliBrite :: string where "CircuitType_IntelliBrite = ''INTELLI''"
definition CircuitType_LightShowGroup :: string where "CircuitType_LightShowGroup = ''LITSHO''"
definition CircuitStatus_Off :: string where "CircuitStatus_Off = ''OFF''"

datatype IntelliCenterRequestCommand = GetQuery | RequestParamList | SetParamList

datatype HeatMode = HeatMode_On | HeatMode_Off

text \<open>
  An entry of a request's objectList: a subscribe request (objnam, keys) or a status
  message (objnam, params); an object literal keeps the order of its keys.
\<close>

record ObjectListEntry =
  objnam :: "string option"
  keyList :: "string list option"
  paramList :: "(string \<times> pvalue) list option"

record IntelliCenterRequest =
  command :: IntelliCenterRequestCommand
  queryName :: "string option"
  arguments :: "string option"
  messageID :: string
  objectList :: "ObjectListEntry list option"

section \<open>HeaterAccessory (heaterAccessory.ts)\<close>

text \<open>
  The fields of the heater and of its body that the handlers read. heatMode is a number,
  as the type Body declares it (the handlers also convert a string with Number; a body
  whose heatMode is a string is not modelled), or absent.
\<close>

record Heater =
  heater_id :: string
  heater_name :: string
  heater_type :: string
  coolingEnabled :: bool

record Body =
  body_id :: string
  heaterId :: "string option"
  heatSource :: "string option"
  heatMode :: "number option"

text \<open>
  The fields of a HeaterAccessory that its state and mode handlers read. The
  heatModeOverride is the validated configuration value: absent, or a mode number
  between 2 and 15 (ConfigValidator); integral modes are modelled.
\<close>

record HeaterAccessory =
  heater :: Heater
  body :: Body
  heatModeOverride :: "nat option"
  temperature :: "number option"
  lowTemperature :: "number option"
  highTemperature :: "number option"

text \<open>Characteristic.CurrentHeatingCoolingState of the host framework.\<close>

datatype CurrentHeatingCoolingState = OFF | HEAT | COOL


definition getStateFromHeatMode :: "string \<Rightarrow> number \<Rightarrow> CurrentHeatingCoolingState" where
  "getStateFromHeatMode src m =
     (if numEq m 9 then COOL else if numGe m 1 then HEAT else OFF)"

definition checkHeatSourceState ::
  "HeaterAccessory \<Rightarrow> string option \<Rightarrow> number option \<Rightarrow> CurrentHeatingCoolingState option" where
  "checkHeatSourceState acc hs hm =
     (case hs of
        None \<Rightarrow> None
      | Some src \<Rightarrow>
          if src = [] then None
          else if src = ''00000'' then Some OFF
          else if src \<noteq> heater_id (heater acc) then Some OFF
          else (case hm of
                  None \<Rightarrow> None
                | Some m \<Rightarrow> if m \<noteq> NaN then Some (getStateFromHeatMode src m) else None))"

definition checkHeatModeState :: "HeaterAccessory \<Rightarrow> CurrentHeatingCoolingState option" where
  "checkHeatModeState acc =
     (case heatMode (body acc) of
        None \<Rightarrow> None
      | Some m \<Rightarrow>
          if m \<noteq> NaN
          then (if numEq m 9 then Some COOL else if numGe m 1 then Some HEAT else Some OFF)
          else None)"

definition checkTemperatureState :: "HeaterAccessory \<Rightarrow> CurrentHeatingCoolingState" where
  "checkTemperatureState acc =
     (if heaterId (body acc) \<noteq> Some (heater_id (heater acc)) then OFF
      else case checkHeatModeState acc of
        Some s \<Rightarrow> s
      | None \<Rightarrow>
          if \<not> truthyNumOpt (temperature acc) then OFF
          else if coolingEnabled (heater acc) then
            (if truthyNumOpt (highTemperature acc)
                \<and> numGt (the (temperature acc)) (the (highTemperature acc)) then COOL
             else if truthyNumOpt (lowTemperature acc)
                \<and> numLt (the (temperature acc)) (the (lowTemperature acc)) then HEAT
             else OFF)
          else if truthyNumOpt (lowTemperature acc)
                \<and> numLt (the (temperature acc)) (the (lowTemperature acc)) then HEAT
          else OFF)"

definition getCurrentHeatingCoolingState :: "HeaterAccessory \<Rightarrow> CurrentHeatingCoolingState" where
  "getCurrentHeatingCoolingState acc =
     (case checkHeatSourceState acc (heatSource (body acc)) (heatMode (body acc)) of
        Some s \<Rightarrow> s
      | None \<Rightarrow> checkTemperatureState acc)"

text \<open>
  setMode, as the list of requests it hands to platform.sendCommandNoWait, in order. The
  message ids come from the uuid library: \<open>gen k\<close> is the value of the k-th call of
  uuidv4, and \<open>k\<close> counts the calls made before.
\<close>

definition statusMessage :: "string \<Rightarrow> string \<Rightarrow> (string \<times> pvalue) list \<Rightarrow> IntelliCenterRequest" where
  "statusMessage mid obj ps =
     \<lparr> command = SetParamList, queryName = None, arguments = None, messageID = mid,
       objectList = Some [\<lparr> objnam = Some obj, keyList = None, paramList = Some ps \<rparr>] \<rparr>"


text \<open>An example: a gas heater selected for a pool that is warmer than its setpoint.\<close>

definition exampleHeater :: HeaterAccessory where
  "exampleHeater =
     \<lparr> heater = \<lparr> heater_id = ''H0001'', heater_name = ''Gas Heater'', heater_type = ''GENERIC'',
                  coolingEnabled = False \<rparr>,
       body = \<lparr> body_id = ''B1101'', heaterId = Some ''H0001'', heatSource = Some ''H0001'',
                heatMode = Some (Num 4) \<rparr>,
       heatModeOverride = None,
       temperature = Some (Num 30), lowTemperature = Some (Num 25), highTemperature = None \<rparr>"

section \<open>Wire codec (platform.ts: handleDataReceived)\<close>

text \<open>
  The fields of the platform that the data handler touches: the text buffer, the
  configured maximum buffer size (ConfigValidator: between 65536 and 16777216, default
  1048576) and, as the trace of the handler's effect, the responses passed to
  handleUpdate, in order.

  A chunk is a Buffer: a list of bytes whose \<^verbatim>\<open>length\<close> counts bytes. The buffer is a
  string. \<^verbatim>\<open>this.buffer + chunk\<close> converts the chunk with Buffer.prototype.toString, a
  function of the runtime, which the model takes as the parameter \<open>toStr\<close>. JSON.parse is
  the parameter \<open>parse\<close>, with None where it throws.
\<close>

record 'r codec =
  buffer :: string
  maxBufferSize :: nat
  handled :: "'r list"

definition isCompleteMessage :: "string \<Rightarrow> bool" where
  "isCompleteMessage chunk = (length chunk > 0 \<and> last chunk = CHR 0x0A)"

text \<open>\<^verbatim>\<open>s.split(/\n/)\<close>: the pieces between the newlines, the empty ones included.\<close>

fun splitLines :: "string \<Rightarrow> string list" where
  "splitLines [] = [[]]"
| "splitLines (c # cs) =
     (if c = CHR 0x0A then [] # splitLines cs
      else (case splitLines cs of [] \<Rightarrow> [[c]] | l # ls \<Rightarrow> (c # l) # ls))"

text \<open>
  String.prototype.trim removes white space and line terminators at both ends; these are
  the ones among the code units up to U+00FF.
\<close>

definition isWhiteSpace :: "char \<Rightarrow> bool" where
  "isWhiteSpace c =
     (c \<in> set [CHR 0x09, CHR 0x0A, CHR 0x0B, CHR 0x0C, CHR 0x0D, CHR 0x20, CHR 0xA0])"

definition trim :: "string \<Rightarrow> string" where
  "trim s = rev (dropWhile isWhiteSpace (rev (dropWhile isWhiteSpace s)))"

definition isValidJsonStructure :: "string \<Rightarrow> bool" where
  "isValidJsonStructure line =
     ((case line of [] \<Rightarrow> False | c # _ \<Rightarrow> c = CHR ''{'') \<and> line \<noteq> [] \<and> last line = CHR ''}'')"

definition processMessageLine :: "(string \<Rightarrow> 'r option) \<Rightarrow> string \<Rightarrow> 'r codec \<Rightarrow> 'r codec" where
  "processMessageLine parse line st =
     (if trim line = [] then st
      else let trimmedLine = trim line in
        if \<not> isValidJsonStructure trimmedLine then st
        else (case parse trimmedLine of
                Some response \<Rightarrow> st\<lparr>handled := handled st @ [response]\<rparr>
              | None \<Rightarrow> st))"

definition processCompleteMessage ::
  "(string \<Rightarrow> string) \<Rightarrow> (string \<Rightarrow> 'r option) \<Rightarrow> string \<Rightarrow> 'r codec \<Rightarrow> 'r codec" where
  "processCompleteMessage toStr parse chunk st =
     (let bufferedData = buffer st @ toStr chunk;
          st1 = st\<lparr>buffer := []\<rparr>;
          lines = splitLines bufferedData
      in foldl (\<lambda>s line. processMessageLine parse line s) st1 lines)"

definition bufferIncompleteData :: "(string \<Rightarrow> string) \<Rightarrow> string \<Rightarrow> 'r codec \<Rightarrow> 'r codec" where
  "bufferIncompleteData toStr chunk st =
     (if length (buffer st) + length chunk > maxBufferSize st
      then st\<lparr>buffer := []\<rparr>
      else st\<lparr>buffer := buffer st @ toStr chunk\<rparr>)"

definition handleDataReceived ::
  "(string \<Rightarrow> string) \<Rightarrow> (string \<Rightarrow> 'r option) \<Rightarrow> string \<Rightarrow> 'r codec \<Rightarrow> 'r codec" where
  "handleDataReceived toStr parse chunk st =
     (if isCompleteMessage chunk then processCompleteMessage toStr parse chunk st
      else bufferIncompleteData toStr chunk st)"

text \<open>The data events of a connection, one chunk after the other.\<close>

definition feed ::
  "(string \<Rightarrow> string) \<Rightarrow> (string \<Rightarrow> 'r option) \<Rightarrow> string list \<Rightarrow> 'r codec \<Rightarrow> 'r codec" where
  "feed toStr parse chunks st = foldl (\<lambda>s chunk. handleDataReceived toStr parse chunk s) st chunks"

text \<open>
  A byte below 128 is an ASCII character, which the UTF-8 decoding of toString maps to
  the code unit of the same value.
\<close>

definition isAscii :: "char \<Rightarrow> bool" where
  "isAscii c = (of_char c < (128::nat))"

text \<open>What one line contributes to the trace, and what the lines of a text contribute.\<close>

definition lineResponse :: "(string \<Rightarrow> 'r option) \<Rightarrow> string \<Rightarrow> 'r option" where
  "lineResponse parse line =
     (if trim line = [] then None
      else if \<not> isValidJsonStructure (trim line) then None
      else parse (trim line))"

definition responses :: "(string \<Rightarrow> 'r option) \<Rightarrow> string \<Rightarrow> 'r list" where
  "responses parse s = List.map_filter (lineResponse parse) (splitLines s)"

text \<open>Example inputs: a fresh codec with the default buffer size, and a line over that size.\<close>

definition codec0 :: "string codec" where
  "codec0 = \<lparr> buffer = [], maxBufferSize = 1048576, handled = [] \<rparr>"

definition nl :: string where
  "nl = [CHR 0x0A]"

definition bigLine :: string where
  \<open>bigLine = ''{"a":"'' @ replicate 1048576 CHR ''x'' @ ''"}''\<close>

section \<open>Session manager: the outbound command path and discovery (platform.ts)\<close>

subsection \<open>Message ids\<close>

text \<open>
  The test of sanitizeCommand,
  \<^verbatim>\<open>/^[0-9a-f]{8}-[0-9a-f]{4}-[0-9a-f]{4}-[0-9a-f]{4}-[0-9a-f]{12}$/i\<close>,
  as a template: an \<open>x\<close> stands for one hexadecimal digit of either case, a dash for
  itself.
\<close>

definition isHexDigit :: "char \<Rightarrow> bool" where
  "isHexDigit c = (c \<in> set ''0123456789abcdefABCDEF'')"

definition uuidTemplate :: string where
  "uuidTemplate = ''xxxxxxxx-xxxx-xxxx-xxxx-xxxxxxxxxxxx''"

definition isUuidFormat :: "string \<Rightarrow> bool" where
  "isUuidFormat s =
     list_all2 (\<lambda>p c. if p = CHR ''-'' then c = CHR ''-'' else isHexDigit c) uuidTemplate s"



subsection \<open>sanitizeCommand\<close>

text \<open>
  The characters removed from the arguments, \<^verbatim>\<open>/[<>"'&;]/g\<close>, and the ones kept in an
  object name, \<^verbatim>\<open>/[^a-zA-Z0-9_-]/g\<close>.
\<close>

definition isInjectionChar :: "char \<Rightarrow> bool" where
  "isInjectionChar c =
     (c \<in> set [CHR ''<'', CHR ''>'', CHR 0x22, CHR 0x27, CHR ''&'', CHR '';''])"

definition isObjectNameChar :: "char \<Rightarrow> bool" where
  "isObjectNameChar c =
     (c \<in> set ''abcdefghijklmnopqrstuvwxyzABCDEFGHIJKLMNOPQRSTUVWXYZ0123456789_-'')"

definition sanitizeObject :: "ObjectListEntry \<Rightarrow> ObjectListEntry" where
  "sanitizeObject obj =
     (case objnam obj of
        None \<Rightarrow> obj
      | Some n \<Rightarrow> if n \<noteq> [] then obj\<lparr>objnam := Some (filter isObjectNameChar n)\<rparr> else obj)"

text \<open>
  sanitizeCommand returns the sanitized copy; \<open>gen k\<close> is the value of the k-th call of
  uuidv4 and the second component counts the calls made so far.
\<close>

definition sanitizeCommand ::
  "(nat \<Rightarrow> string) \<Rightarrow> nat \<Rightarrow> IntelliCenterRequest \<Rightarrow> IntelliCenterRequest \<times> nat" where
  "sanitizeCommand gen k cmd =
     (let s1 = (case arguments cmd of
                  None \<Rightarrow> cmd
                | Some a \<Rightarrow>
                    if a \<noteq> [] then cmd\<lparr>arguments := Some (filter (\<lambda>c. \<not> isInjectionChar c) a)\<rparr>
                    else cmd);
          (s2, k') = (if \<not> isUuidFormat (messageID s1)
                      then (s1\<lparr>messageID := gen k\<rparr>, k + 1)
                      else (s1, k));
          s3 = (case objectList s2 of
                  None \<Rightarrow> s2
                | Some objs \<Rightarrow> s2\<lparr>objectList := Some (map sanitizeObject objs)\<rparr>)
      in (s3, k'))"

subsection \<open>Rate limiter\<close>

text \<open>
  Modelled from the spec: the RateLimiter of the errorHandling module, which is not
  among the sources. The specification gives a limiter of 40 requests per 60 seconds
  whose rejected sends are dropped: a request is admitted, and recorded, when fewer than
  maxRequests requests were admitted within the last windowMs milliseconds.
\<close>

record RateLimiter =
  maxRequests :: nat
  windowMs :: int
  requests :: "int list"

definition recordRequest :: "int \<Rightarrow> RateLimiter \<Rightarrow> bool \<times> RateLimiter" where
  "recordRequest now rl =
     (let recent = filter (\<lambda>t. now - t < windowMs rl) (requests rl)
      in if length recent < maxRequests rl
         then (True, rl\<lparr>requests := recent @ [now]\<rparr>)
         else (False, rl\<lparr>requests := recent\<rparr>))"

subsection \<open>The platform's session state\<close>

text \<open>
  The fields of the platform that the command path and the discovery read and write.
  The accumulated discovery answer is kept as the list of the answers merged into it
  (mergeResponse is a function of the util module). The fields from uuidCalls to
  completions are traces of the calls on collaborators: the calls of uuidv4, the commands
  written to the connection, the calls of deadLetterQueue.add (command, attempts, error
  text, original id), the times at which maybeReconnect started a reconnect, and the
  answer trees handed to transformPanels when a discovery completed.

  The last two fields are the timers of the runtime that the discovery has set and that
  have neither fired nor been cleared, each with its handle, its delay in milliseconds
  and its callback, and the number of timers set so far, which is the next handle. The
  callbacks are the three closures of the discovery: the timeout of a query, the paced
  sending of the next command of the list (by its index), and the paced retry of a failed
  command. The field discoveryTimeout holds a handle.
\<close>

datatype callback = TimeoutCallback string | NextCommandCallback nat | RetryCallback string

record 'a platform =
  discoverCommandsSent :: "string list"
  discoverCommandsFailed :: "string list"
  discoveryBuffer :: "'a list option"
  discoveryTimeout :: "nat option"
  commandQueue :: "IntelliCenterRequest list"
  processingQueue :: bool
  isSocketAlive :: bool
  reconnecting :: bool
  lastReconnectTime :: int
  rateLimiter :: RateLimiter
  uuidCalls :: nat
  wire :: "IntelliCenterRequest list"
  deadLetters :: "(IntelliCenterRequest \<times> nat \<times> string \<times> string) list"
  reconnects :: "int list"
  completions :: "'a list option list"
  timers :: "(nat \<times> int \<times> callback) list"
  timerCount :: nat

text \<open>\<^verbatim>\<open>setTimeout(callback, delay)\<close>, which returns the handle \<open>timerCount st\<close>, and \<^verbatim>\<open>clearTimeout(handle)\<close>.\<close>

definition setTimeout :: "callback \<Rightarrow> int \<Rightarrow> 'a platform \<Rightarrow> 'a platform" where
  "setTimeout callback delay st =
     st\<lparr>timers := timers st @ [(timerCount st, delay, callback)],
        timerCount := timerCount st + 1\<rparr>"

definition clearTimeout :: "nat \<Rightarrow> 'a platform \<Rightarrow> 'a platform" where
  "clearTimeout handle st = st\<lparr>timers := filter (\<lambda>t. fst t \<noteq> handle) (timers st)\<rparr>"

text \<open>
  maybeReconnect up to its first await: the two guards, then the flags and the start of
  the reconnect (connection.destroy and the new connection attempt).
\<close>

definition maybeReconnect :: "int \<Rightarrow> 'a platform \<Rightarrow> 'a platform" where
  "maybeReconnect now st =
     (if reconnecting st then st
      else if now - lastReconnectTime st < 30 * 1000 then st
      else st\<lparr>reconnecting := True, lastReconnectTime := now,
              reconnects := reconnects st @ [now]\<rparr>)"

subsection \<open>The command queue\<close>

text \<open>\<^verbatim>\<open>s.includes(sub)\<close>.\<close>

fun startsWith :: "string \<Rightarrow> string \<Rightarrow> bool" where
  "startsWith s [] = True"
| "startsWith [] (p # ps) = False"
| "startsWith (c # cs) (p # ps) = (c = p \<and> startsWith cs ps)"

fun str_includes :: "string \<Rightarrow> string \<Rightarrow> bool" where
  "str_includes [] sub = (sub = [])"
| "str_includes (c # cs) sub = (startsWith (c # cs) sub \<or> str_includes cs sub)"

definition isConnectionError :: "string \<Rightarrow> bool" where
  "isConnectionError errorString =
     (str_includes errorString ''connection'' \<or> str_includes errorString ''socket'')"

definition deadLetter :: "IntelliCenterRequest \<Rightarrow> string \<Rightarrow> IntelliCenterRequest \<times> nat \<times> string \<times> string" where
  "deadLetter cmd err = (cmd, 1, err, if messageID cmd \<noteq> [] then messageID cmd else ''unknown'')"

text \<open>
  The loop of processCommandQueue. \<open>send cmd\<close> is the outcome of the try block for a
  command (serialising it and writing it to the connection): None when it succeeds, the
  text of the error when it throws. The handler's clock is \<open>now\<close>.
\<close>

function drainQueue ::
  "(IntelliCenterRequest \<Rightarrow> string option) \<Rightarrow> int \<Rightarrow> 'a platform \<Rightarrow> 'a platform" where
  "drainQueue send now st =
     (if commandQueue st \<noteq> [] \<and> isSocketAlive st then
        (let cmd = hd (commandQueue st);
             st1 = st\<lparr>commandQueue := tl (commandQueue st)\<rparr>
         in case send cmd of
              None \<Rightarrow> drainQueue send now (st1\<lparr>wire := wire st1 @ [cmd]\<rparr>)
            | Some err \<Rightarrow>
                (let st2 = st1\<lparr>deadLetters := deadLetters st1 @ [deadLetter cmd err]\<rparr>
                 in if isConnectionError err then maybeReconnect now st2
                    else drainQueue send now st2))
      else st)"
  by pat_completeness auto
termination
  by (relation "measure (\<lambda>(send, now, st). length (commandQueue st))") auto

declare drainQueue.simps [simp del]

definition processCommandQueue ::
  "(IntelliCenterRequest \<Rightarrow> string option) \<Rightarrow> int \<Rightarrow> 'a platform \<Rightarrow> 'a platform" where
  "processCommandQueue send now st =
     (if processingQueue st \<or> commandQueue st = [] then st
      else (drainQueue send now (st\<lparr>processingQueue := True\<rparr>))\<lparr>processingQueue := False\<rparr>)"

definition sendCommandNoWait ::
  "(IntelliCenterRequest \<Rightarrow> string option) \<Rightarrow> (nat \<Rightarrow> string) \<Rightarrow> int \<Rightarrow>
     IntelliCenterRequest \<Rightarrow> 'a platform \<Rightarrow> 'a platform" where
  "sendCommandNoWait send gen now cmd st =
     (let (allowed, rl) = recordRequest now (rateLimiter st);
          st1 = st\<lparr>rateLimiter := rl\<rparr>
      in if \<not> allowed then st1
         else if \<not> isSocketAlive st1 then maybeReconnect now st1
         else (let (sanitizedCommand, k) = sanitizeCommand gen (uuidCalls st1) cmd;
                   st2 = st1\<lparr>uuidCalls := k,
                             commandQueue := commandQueue st1 @ [sanitizedCommand]\<rparr>
               in processCommandQueue send now st2))"

subsection \<open>Discovery\<close>

definition resetDiscoveryState :: "'a platform \<Rightarrow> 'a platform" where
  "resetDiscoveryState st =
     st\<lparr>discoverCommandsSent := [], discoveryBuffer := None, commandQueue := [],
        processingQueue := False\<rparr>"

definition discoverDeviceType ::
  "(IntelliCenterRequest \<Rightarrow> string option) \<Rightarrow> (nat \<Rightarrow> string) \<Rightarrow> int \<Rightarrow> string \<Rightarrow>
     'a platform \<Rightarrow> 'a platform" where
  "discoverDeviceType send gen now deviceType st =
     (let st1 = st\<lparr>discoverCommandsSent := discoverCommandsSent st @ [deviceType]\<rparr>;
          cmd = \<lparr> command = GetQuery, queryName = Some ''GetHardwareDefinition'',
                  arguments = Some deviceType, messageID = gen (uuidCalls st1),
                  objectList = None \<rparr>;
          st2 = st1\<lparr>uuidCalls := uuidCalls st1 + 1\<rparr>;
          st3 = (setTimeout (TimeoutCallback deviceType) 30000 st2)
                  \<lparr>discoveryTimeout := Some (timerCount st2)\<rparr>
      in sendCommandNoWait send gen now cmd st3)"

definition discoverDevices ::
  "(IntelliCenterRequest \<Rightarrow> string option) \<Rightarrow> (nat \<Rightarrow> string) \<Rightarrow> int \<Rightarrow>
     'a platform \<Rightarrow> 'a platform" where
  "discoverDevices send gen now st =
     (case DISCOVER_COMMANDS of
        [] \<Rightarrow> st
      | firstCommand # _ \<Rightarrow>
          if firstCommand \<noteq> [] then discoverDeviceType send gen now firstCommand st else st)"

definition handleConnectionEstablished ::
  "(IntelliCenterRequest \<Rightarrow> string option) \<Rightarrow> (nat \<Rightarrow> string) \<Rightarrow> int \<Rightarrow>
     'a platform \<Rightarrow> 'a platform" where
  "handleConnectionEstablished send gen now st =
     discoverDevices send gen now (resetDiscoveryState (st\<lparr>isSocketAlive := True\<rparr>))"

text \<open>
  The two completions hand the accumulated answer to transformPanels and register the
  accessories it yields.
\<close>

definition completeDiscoveryWithPartialData :: "'a platform \<Rightarrow> 'a platform" where
  "completeDiscoveryWithPartialData st = st\<lparr>completions := completions st @ [discoveryBuffer st]\<rparr>"

definition completeDiscovery :: "'a platform \<Rightarrow> 'a platform" where
  "completeDiscovery st = st\<lparr>completions := completions st @ [discoveryBuffer st]\<rparr>"

text \<open>
  The timeout of a query. The next command is sent by a timer of one second, which
  captures the index.
\<close>

definition handleDiscoveryTimeout :: "string \<Rightarrow> 'a platform \<Rightarrow> 'a platform" where
  "handleDiscoveryTimeout deviceType st =
     (let st1 = st\<lparr>discoverCommandsFailed :=
                      (if deviceType \<in> set (discoverCommandsFailed st)
                       then discoverCommandsFailed st
                       else discoverCommandsFailed st @ [deviceType]),
                    discoveryTimeout := None\<rparr>;
          nextCommandIndex = length (discoverCommandsSent st1)
      in if nextCommandIndex < length DISCOVER_COMMANDS
         then setTimeout (NextCommandCallback nextCommandIndex) 1000 st1
         else completeDiscoveryWithPartialData st1)"

definition clearDiscoveryTimeout :: "'a platform \<Rightarrow> 'a platform" where
  "clearDiscoveryTimeout st =
     (case discoveryTimeout st of
        None \<Rightarrow> st
      | Some handle \<Rightarrow> (clearTimeout handle st)\<lparr>discoveryTimeout := None\<rparr>)"

definition mergeDiscoveryResponse :: "'a option \<Rightarrow> 'a platform \<Rightarrow> 'a platform" where
  "mergeDiscoveryResponse answer st =
     (case discoveryBuffer st of
        None \<Rightarrow> st\<lparr>discoveryBuffer := map_option (\<lambda>a. [a]) answer\<rparr>
      | Some merged \<Rightarrow>
          (case answer of
             None \<Rightarrow> st
           | Some a \<Rightarrow> st\<lparr>discoveryBuffer := Some (merged @ [a])\<rparr>))"

definition shouldRetryCommand :: "'a platform \<Rightarrow> string \<Rightarrow> bool" where
  "shouldRetryCommand st failedCommand =
     (length (filter (\<lambda>cmd. cmd = failedCommand) (discoverCommandsSent st)) = 1)"

text \<open>
  An answer to a discovery query: sendNextDiscoveryCommand sets a timer of half a second,
  shouldRetryFailedCommands sets a timer of one second for the first failed command that
  shouldRetryCommand accepts.
\<close>

definition handleDiscoveryResponse :: "'a option \<Rightarrow> 'a platform \<Rightarrow> 'a platform" where
  "handleDiscoveryResponse answer st =
     (let st1 = clearDiscoveryTimeout st;
          st2 = mergeDiscoveryResponse answer st1;
          total = length DISCOVER_COMMANDS;
          completed = length (discoverCommandsSent st2);
          failed = length (discoverCommandsFailed st2)
      in if completed < total then setTimeout (NextCommandCallback completed) 500 st2
         else if failed = 0 \<or> completed \<noteq> total then completeDiscovery st2
         else (case find (shouldRetryCommand st2) (discoverCommandsFailed st2) of
                 Some failedCommand \<Rightarrow> setTimeout (RetryCallback failedCommand) 1000 st2
               | None \<Rightarrow> completeDiscovery st2))"

text \<open>The callback of a timer, run at the time the timer fires.\<close>

definition runCallback ::
  "(IntelliCenterRequest \<Rightarrow> string option) \<Rightarrow> (nat \<Rightarrow> string) \<Rightarrow> int \<Rightarrow> callback \<Rightarrow>
     'a platform \<Rightarrow> 'a platform" where
  "runCallback send gen now callback st =
     (case callback of
        TimeoutCallback deviceType \<Rightarrow> handleDiscoveryTimeout deviceType st
      | NextCommandCallback index \<Rightarrow>
          if index < length DISCOVER_COMMANDS \<and> DISCOVER_COMMANDS ! index \<noteq> []
          then discoverDeviceType send gen now (DISCOVER_COMMANDS ! index) st
          else st
      | RetryCallback failedCommand \<Rightarrow> discoverDeviceType send gen now failedCommand st)"

text \<open>
  What happens to the discovery, each with its time: an answer to a discovery query is
  received, which handleUpdate passes to handleDiscoveryResponse whichever query it
  answers and whether or not a query is outstanding; or the timer with the given handle
  fires, which takes it from the timers and runs its callback. A timer that is not set
  cannot fire.
\<close>

datatype 'a input = Receive int "'a option" | Fire int nat

definition step ::
  "(IntelliCenterRequest \<Rightarrow> string option) \<Rightarrow> (nat \<Rightarrow> string) \<Rightarrow> 'a input \<Rightarrow>
     'a platform \<Rightarrow> 'a platform" where
  "step send gen i st =
     (case i of
        Receive now answer \<Rightarrow> handleDiscoveryResponse answer st
      | Fire now handle \<Rightarrow>
          (case find (\<lambda>t. fst t = handle) (timers st) of
             None \<Rightarrow> st
           | Some t \<Rightarrow> runCallback send gen now (snd (snd t)) (clearTimeout handle st)))"

definition run ::
  "(IntelliCenterRequest \<Rightarrow> string option) \<Rightarrow> (nat \<Rightarrow> string) \<Rightarrow> 'a input list \<Rightarrow>
     'a platform \<Rightarrow> 'a platform" where
  "run send gen inputs st = foldl (\<lambda>s i. step send gen i s) st inputs"

text \<open>
  A discovery runs undisturbed when nothing is received while a pacing timer is set:
  every query is answered, or its timeout fires, and the pacing timer which that sets
  fires, after its delay, before the next answer or timeout. The events of an undisturbed
  discovery are the answers and the timeouts of the outstanding query.
\<close>

datatype 'a event = Response int "'a option" | Timeout int

definition isPacing :: "callback \<Rightarrow> bool" where
  "isPacing callback =
     (case callback of TimeoutCallback deviceType \<Rightarrow> False | _ \<Rightarrow> True)"

definition settle ::
  "(IntelliCenterRequest \<Rightarrow> string option) \<Rightarrow> (nat \<Rightarrow> string) \<Rightarrow> int \<Rightarrow>
     'a platform \<Rightarrow> 'a platform" where
  "settle send gen now st =
     (case find (\<lambda>t. isPacing (snd (snd t))) (timers st) of
        None \<Rightarrow> st
      | Some t \<Rightarrow> step send gen (Fire (now + fst (snd t)) (fst t)) st)"

definition undisturbedStep ::
  "(IntelliCenterRequest \<Rightarrow> string option) \<Rightarrow> (nat \<Rightarrow> string) \<Rightarrow> 'a event \<Rightarrow>
     'a platform \<Rightarrow> 'a platform" where
  "undisturbedStep send gen e st =
     (case e of
        Response now answer \<Rightarrow> settle send gen now (step send gen (Receive now answer) st)
      | Timeout now \<Rightarrow>
          (case discoveryTimeout st of
             None \<Rightarrow> st
           | Some handle \<Rightarrow> settle send gen now (step send gen (Fire now handle) st)))"

definition undisturbedRun ::
  "(IntelliCenterRequest \<Rightarrow> string option) \<Rightarrow> (nat \<Rightarrow> string) \<Rightarrow> 'a event list \<Rightarrow>
     'a platform \<Rightarrow> 'a platform" where
  "undisturbedRun send gen es st = foldl (\<lambda>s e. undisturbedStep send gen e s) st es"

subsection \<open>What a drain of the queue does to each command\<close>

text \<open>
  A command whose send fails with a connection-related error stops the drain; the
  commands before it were either written to the connection or handed to the dead letter
  queue.
\<close>

definition connFails :: "(IntelliCenterRequest \<Rightarrow> string option) \<Rightarrow> IntelliCenterRequest \<Rightarrow> bool" where
  "connFails send cmd = (case send cmd of None \<Rightarrow> False | Some err \<Rightarrow> isConnectionError err)"

definition sentOf ::
  "(IntelliCenterRequest \<Rightarrow> string option) \<Rightarrow> IntelliCenterRequest list \<Rightarrow>
     IntelliCenterRequest list" where
  "sentOf send cmds = filter (\<lambda>c. send c = None) cmds"

definition failedOf ::
  "(IntelliCenterRequest \<Rightarrow> string option) \<Rightarrow> IntelliCenterRequest list \<Rightarrow>
     (IntelliCenterRequest \<times> nat \<times> string \<times> string) list" where
  "failedOf send cmds = List.map_filter (\<lambda>c. map_option (deadLetter c) (send c)) cmds"

definition drained ::
  "(IntelliCenterRequest \<Rightarrow> string option) \<Rightarrow> int \<Rightarrow> IntelliCenterRequest list \<Rightarrow>
     'a platform \<Rightarrow> 'a platform" where
  "drained send now q st =
     (case dropWhile (\<lambda>c. \<not> connFails send c) q of
        [] \<Rightarrow> st\<lparr>commandQueue := [],
                  wire := wire st @ sentOf send q,
                  deadLetters := deadLetters st @ failedOf send q\<rparr>
      | c # rest \<Rightarrow>
          maybeReconnect now
            (st\<lparr>commandQueue := rest,
                wire := wire st @ sentOf send (takeWhile (\<lambda>c. \<not> connFails send c) q),
                deadLetters := deadLetters st
                  @ failedOf send (takeWhile (\<lambda>c. \<not> connFails send c) q @ [c])\<rparr>))"

subsection \<open>Example inputs\<close>

definition limiter0 :: RateLimiter where
  "limiter0 = \<lparr> maxRequests = 40, windowMs = 60000, requests = [] \<rparr>"

definition platform0 :: "string platform" where
  "platform0 =
     \<lparr> discoverCommandsSent = [], discoverCommandsFailed = [], discoveryBuffer = None,
       discoveryTimeout = None, commandQueue = [], processingQueue = False,
       isSocketAlive = True, reconnecting = False, lastReconnectTime = 0,
       rateLimiter = limiter0, uuidCalls = 0, wire = [], deadLetters = [],
       reconnects = [], completions = [], timers = [], timerCount = 0 \<rparr>"

text \<open>A generator of version 4 ids, and ids of version 1 and of no UUID shape.\<close>

definition exampleGen :: "nat \<Rightarrow> string" where
  "exampleGen k = ''3f2b8c1e-9d4a-4e6f-8a7b-00000000000'' @ [digitChar (k mod 10)]"


definition setStatus :: "string \<Rightarrow> string \<Rightarrow> string \<Rightarrow> IntelliCenterRequest" where
  "setStatus mid obj v = statusMessage mid obj [(STATUS_KEY, PStr v)]"

definition exampleSend :: "IntelliCenterRequest \<Rightarrow> string option" where
  "exampleSend cmd =
     (if messageID cmd = exampleGen 1 then Some ''Error: socket hang up''
      else if messageID cmd = exampleGen 2 then Some ''Error: write EPIPE''
      else None)"

text \<open>
  A queue of four commands: the first is written, the second fails with an error that is
  not connection-related, the third fails with a socket error, the fourth is still
  waiting.
\<close>

definition cmdA :: IntelliCenterRequest where
  "cmdA = setStatus (exampleGen 0) ''C0001'' ''ON''"





text \<open>A platform whose limiter admitted forty commands during the last forty seconds.\<close>

definition platformBusy :: "string platform" where
  "platformBusy =
     platform0\<lparr>rateLimiter := limiter0\<lparr>requests := map (\<lambda>i. 1000 * int i) [0..<40]\<rparr>\<rparr>"




section \<open>Inbound status updates (platform.ts)\<close>

subsection \<open>Pump circuits\<close>

record PumpCircuit =
  pc_id :: string
  circuitId :: string
  speed :: number
  speedType :: string
  status :: "pvalue option"
  rpm :: "number option"
  gpm :: "number option"
  watts :: "number option"

text \<open>
  updatePumpCircuitProperties, which updatePump applies to the pump circuit of the
  accessory that a status message addresses. \<^verbatim>\<open>Number(x)\<close> is the conversion of the
  runtime, the parameter \<open>toNumber\<close>.
\<close>

definition updatePumpCircuitProperties ::
  "(pvalue \<Rightarrow> number) \<Rightarrow> PumpCircuit \<Rightarrow> IntelliCenterParams \<Rightarrow> PumpCircuit" where
  "updatePumpCircuitProperties toNumber pumpCircuit ps =
     (let p1 = (if truthyOpt (ps ''STATUS'') then pumpCircuit\<lparr>status := ps ''STATUS''\<rparr>
                else pumpCircuit);
          p2 = (if truthyOpt (ps ''SPEED'') then p1\<lparr>speed := toNumber (the (ps ''SPEED''))\<rparr>
                else p1);
          p3 = (if truthyOpt (ps ''RPM'') then p2\<lparr>rpm := Some (toNumber (the (ps ''RPM'')))\<rparr>
                else p2);
          p4 = (if truthyOpt (ps ''GPM'') then p3\<lparr>gpm := Some (toNumber (the (ps ''GPM'')))\<rparr>
                else p3);
          p5 = (if truthyOpt (ps ''WATTS'') then p4\<lparr>watts := Some (toNumber (the (ps ''WATTS'')))\<rparr>
                else p4)
      in p5)"

text \<open>
  An example: a pump circuit running at 2400 RPM, and \<^verbatim>\<open>Number\<close> on the values of the
  example messages (a number is itself; the strings of the examples are the digits of
  2400 and 1200).
\<close>

definition examplePumpCircuit :: PumpCircuit where
  "examplePumpCircuit =
     \<lparr> pc_id = ''p0101'', circuitId = ''C0006'', speed = Num 2400, speedType = ''RPM'',
       status = Some (PStr ''ON''), rpm = Some (Num 2400), gpm = Some (Num 45),
       watts = Some (Num 800) \<rparr>"

fun exampleNumber :: "pvalue \<Rightarrow> number" where
  "exampleNumber (PNum n) = n"
| "exampleNumber (PBool b) = Num (if b then 1 else 0)"
| "exampleNumber (PStr s) =
     (if s = [] then Num 0 else if s = ''2400'' then Num 2400
      else if s = ''1200'' then Num 1200 else NaN)"

subsection \<open>IntelliBrite colours\<close>

record Circuit =
  circuit_id :: string
  circuit_name :: string
  objectType :: string
  circuit_type :: string
  circuit_status :: "string option"

text \<open>The context of an accessory, as far as the colour update reads and writes it.\<close>

record AccessoryContext =
  circuit :: "Circuit option"
  activeColor :: "pvalue option"

definition updateIntelliBriteColor :: "AccessoryContext \<Rightarrow> IntelliCenterParams \<Rightarrow> AccessoryContext" where
  "updateIntelliBriteColor ctx ps =
     (let circuitType = map_option circuit_type (circuit ctx);
          isIntelliBrite = (circuitType = Some CircuitType_IntelliBrite
                            \<or> circuitType = Some CircuitType_LightShowGroup)
      in if \<not> isIntelliBrite \<or> circuit ctx = None then ctx
         else (let useColor = ps USE_KEY;
                   actColor = ps ACT_KEY;
                   newColor = (case useColor of
                                 Some u \<Rightarrow> Some u
                               | None \<Rightarrow> if actColor \<noteq> Some (PStr ''65535'') then actColor else None)
               in case newColor of
                    Some c \<Rightarrow> ctx\<lparr>activeColor := Some c\<rparr>
                  | None \<Rightarrow> ctx))"

definition exampleLight :: AccessoryContext where
  "exampleLight =
     \<lparr> circuit = Some \<lparr> circuit_id = ''C0003'', circuit_name = ''Pool Light'',
                         objectType = ''CIRCUIT'', circuit_type = ''INTELLI'',
                         circuit_status = Some ''ON'' \<rparr>,
       activeColor = Some (PStr ''BLUER'') \<rparr>"

subsection \<open>The discovery fields on their own\<close>

text \<open>
  The discovery handlers read and write seven fields of the platform; sending a command
  touches none of them. The record below carries these fields, and the functions after
  it are the effect of the handlers, of the timers and of the inputs on them.
\<close>

record 'a timed =
  t_sent :: "string list"
  t_failed :: "string list"
  t_timeout :: "nat option"
  t_buffer :: "'a list option"
  t_completions :: "'a list option list"
  t_timers :: "(nat \<times> int \<times> callback) list"
  t_timerCount :: nat

definition timedView :: "'a platform \<Rightarrow> 'a timed" where
  "timedView st =
     \<lparr> t_sent = discoverCommandsSent st, t_failed = discoverCommandsFailed st,
       t_timeout = discoveryTimeout st, t_buffer = discoveryBuffer st,
       t_completions = completions st, t_timers = timers st, t_timerCount = timerCount st \<rparr>"

definition timedSet :: "callback \<Rightarrow> int \<Rightarrow> 'a timed \<Rightarrow> 'a timed" where
  "timedSet callback delay v =
     v\<lparr>t_timers := t_timers v @ [(t_timerCount v, delay, callback)],
       t_timerCount := t_timerCount v + 1\<rparr>"

definition timedClear :: "nat \<Rightarrow> 'a timed \<Rightarrow> 'a timed" where
  "timedClear handle v = v\<lparr>t_timers := filter (\<lambda>t. fst t \<noteq> handle) (t_timers v)\<rparr>"

definition timedDiscover :: "string \<Rightarrow> 'a timed \<Rightarrow> 'a timed" where
  "timedDiscover deviceType v =
     (timedSet (TimeoutCallback deviceType) 30000
        (v\<lparr>t_sent := t_sent v @ [deviceType]\<rparr>))\<lparr>t_timeout := Some (t_timerCount v)\<rparr>"

definition timedComplete :: "'a timed \<Rightarrow> 'a timed" where
  "timedComplete v = v\<lparr>t_completions := t_completions v @ [t_buffer v]\<rparr>"

definition timedTimeout :: "string \<Rightarrow> 'a timed \<Rightarrow> 'a timed" where
  "timedTimeout deviceType v =
     (let v1 = v\<lparr>t_failed := (if deviceType \<in> set (t_failed v) then t_failed v
                                 else t_failed v @ [deviceType]),
                  t_timeout := None\<rparr>
      in if length (t_sent v1) < length DISCOVER_COMMANDS
         then timedSet (NextCommandCallback (length (t_sent v1))) 1000 v1
         else timedComplete v1)"

definition timedMerge :: "'a option \<Rightarrow> 'a timed \<Rightarrow> 'a timed" where
  "timedMerge answer v =
     (case t_buffer v of
        None \<Rightarrow> v\<lparr>t_buffer := map_option (\<lambda>a. [a]) answer\<rparr>
      | Some merged \<Rightarrow>
          (case answer of
             None \<Rightarrow> v
           | Some a \<Rightarrow> v\<lparr>t_buffer := Some (merged @ [a])\<rparr>))"

definition timedResponse :: "'a option \<Rightarrow> 'a timed \<Rightarrow> 'a timed" where
  "timedResponse answer v =
     (let v1 = (case t_timeout v of
                  None \<Rightarrow> v
                | Some handle \<Rightarrow> (timedClear handle v)\<lparr>t_timeout := None\<rparr>);
          v2 = timedMerge answer v1
      in if length (t_sent v2) < length DISCOVER_COMMANDS
         then timedSet (NextCommandCallback (length (t_sent v2))) 500 v2
         else if length (t_failed v2) = 0 \<or> length (t_sent v2) \<noteq> length DISCOVER_COMMANDS
           then timedComplete v2
         else (case find (\<lambda>f. length (filter (\<lambda>cmd. cmd = f) (t_sent v2)) = 1) (t_failed v2) of
                 Some failedCommand \<Rightarrow> timedSet (RetryCallback failedCommand) 1000 v2
               | None \<Rightarrow> timedComplete v2))"

definition timedCallback :: "callback \<Rightarrow> 'a timed \<Rightarrow> 'a timed" where
  "timedCallback callback v =
     (case callback of
        TimeoutCallback deviceType \<Rightarrow> timedTimeout deviceType v
      | NextCommandCallback index \<Rightarrow>
          if index < length DISCOVER_COMMANDS \<and> DISCOVER_COMMANDS ! index \<noteq> []
          then timedDiscover (DISCOVER_COMMANDS ! index) v
          else v
      | RetryCallback failedCommand \<Rightarrow> timedDiscover failedCommand v)"

definition timedStep :: "'a input \<Rightarrow> 'a timed \<Rightarrow> 'a timed" where
  "timedStep i v =
     (case i of
        Receive now answer \<Rightarrow> timedResponse answer v
      | Fire now handle \<Rightarrow>
          (case find (\<lambda>t. fst t = handle) (t_timers v) of
             None \<Rightarrow> v
           | Some t \<Rightarrow> timedCallback (snd (snd t)) (timedClear handle v)))"

definition timedSettle :: "'a timed \<Rightarrow> 'a timed" where
  "timedSettle v =
     (case find (\<lambda>t. isPacing (snd (snd t))) (t_timers v) of
        None \<Rightarrow> v
      | Some t \<Rightarrow> timedStep (Fire 0 (fst t)) v)"

definition timedUndisturbed :: "'a event \<Rightarrow> 'a timed \<Rightarrow> 'a timed" where
  "timedUndisturbed e v =
     (case e of
        Response now answer \<Rightarrow> timedSettle (timedStep (Receive now answer) v)
      | Timeout now \<Rightarrow>
          (case t_timeout v of
             None \<Rightarrow> v
           | Some handle \<Rightarrow> timedSettle (timedStep (Fire now handle) v)))"

subsection \<open>The undisturbed discovery\<close>

text \<open>
  In an undisturbed discovery at most one timer is set between two events, the timeout
  of the outstanding query, and discoveryTimeout holds its handle. Then the discovery is
  described by five fields, the outstanding timeout being given by its device type.
\<close>

definition oneTimer :: "'a timed \<Rightarrow> bool" where
  "oneTimer v =
     (case t_timers v of
        [] \<Rightarrow> t_timeout v = None
      | t # ts \<Rightarrow> ts = [] \<and> \<not> isPacing (snd (snd t)) \<and> t_timeout v = Some (fst t))"

fun callbackDevice :: "callback \<Rightarrow> string option" where
  "callbackDevice (TimeoutCallback deviceType) = Some deviceType"
| "callbackDevice (NextCommandCallback index) = None"
| "callbackDevice (RetryCallback failedCommand) = None"

record 'a discovery =
  d_sent :: "string list"
  d_failed :: "string list"
  d_timeout :: "string option"
  d_buffer :: "'a list option"
  d_completions :: "'a list option list"

definition discoveryView :: "'a timed \<Rightarrow> 'a discovery" where
  "discoveryView v =
     \<lparr> d_sent = t_sent v, d_failed = t_failed v,
       d_timeout = (case t_timers v of [] \<Rightarrow> None | t # ts \<Rightarrow> callbackDevice (snd (snd t))),
       d_buffer = t_buffer v, d_completions = t_completions v \<rparr>"

text \<open>The handlers of an undisturbed discovery on the five fields, each with its pacing timer.\<close>

definition viewDiscover :: "string \<Rightarrow> 'a discovery \<Rightarrow> 'a discovery" where
  "viewDiscover deviceType v = v\<lparr>d_sent := d_sent v @ [deviceType], d_timeout := Some deviceType\<rparr>"

definition viewComplete :: "'a discovery \<Rightarrow> 'a discovery" where
  "viewComplete v = v\<lparr>d_completions := d_completions v @ [d_buffer v]\<rparr>"

definition viewTimeout :: "string \<Rightarrow> 'a discovery \<Rightarrow> 'a discovery" where
  "viewTimeout deviceType v =
     (let v1 = v\<lparr>d_failed := (if deviceType \<in> set (d_failed v) then d_failed v
                                 else d_failed v @ [deviceType]),
                  d_timeout := None\<rparr>
      in if length (d_sent v1) < length DISCOVER_COMMANDS then
           (let nextCommand = DISCOVER_COMMANDS ! length (d_sent v1)
            in if nextCommand \<noteq> [] then viewDiscover nextCommand v1 else v1)
         else viewComplete v1)"

definition viewResponse :: "'a option \<Rightarrow> 'a discovery \<Rightarrow> 'a discovery" where
  "viewResponse answer v =
     (let v1 = v\<lparr>d_timeout := None\<rparr>;
          v2 = (case d_buffer v1 of
                  None \<Rightarrow> v1\<lparr>d_buffer := map_option (\<lambda>a. [a]) answer\<rparr>
                | Some merged \<Rightarrow>
                    (case answer of
                       None \<Rightarrow> v1
                     | Some a \<Rightarrow> v1\<lparr>d_buffer := Some (merged @ [a])\<rparr>))
      in if length (d_sent v2) < length DISCOVER_COMMANDS then
           (let nextCommand = DISCOVER_COMMANDS ! length (d_sent v2)
            in if nextCommand \<noteq> [] then viewDiscover nextCommand v2 else v2)
         else if length (d_failed v2) = 0 \<or> length (d_sent v2) \<noteq> length DISCOVER_COMMANDS
           then viewComplete v2
         else (case find (\<lambda>f. length (filter (\<lambda>cmd. cmd = f) (d_sent v2)) = 1) (d_failed v2) of
                 Some failedCommand \<Rightarrow> viewDiscover failedCommand v2
               | None \<Rightarrow> viewComplete v2))"

definition viewStep :: "'a event \<Rightarrow> 'a discovery \<Rightarrow> 'a discovery" where
  "viewStep e v =
     (case e of
        Response now answer \<Rightarrow> viewResponse answer v
      | Timeout now \<Rightarrow>
          (case d_timeout v of
             None \<Rightarrow> v
           | Some deviceType \<Rightarrow> viewTimeout deviceType v))"

text \<open>
  Where a discovery cycle can be, \<open>c0\<close> completions having happened before it. Until it
  completes, a timeout is pending and the commands sent are the first k of the list, or
  the whole list and one retry. Once it has completed, the commands sent are the whole
  list, with or without one retry.
\<close>

definition inCycle :: "nat \<Rightarrow> 'a discovery \<Rightarrow> bool" where
  "inCycle c0 v =
     ((length (d_completions v) = c0 \<and> d_timeout v \<noteq> None
        \<and> ((\<exists>k. 1 \<le> k \<and> k \<le> 7 \<and> d_sent v = take k DISCOVER_COMMANDS)
           \<or> (\<exists>f. f \<in> set DISCOVER_COMMANDS \<and> f \<in> set (d_failed v)
                  \<and> d_sent v = DISCOVER_COMMANDS @ [f])))
      \<or> (c0 < length (d_completions v)
          \<and> (d_sent v = DISCOVER_COMMANDS
              \<or> (\<exists>f. f \<in> set DISCOVER_COMMANDS \<and> f \<in> set (d_failed v)
                     \<and> d_sent v = DISCOVER_COMMANDS @ [f]))))"

text \<open>A bound on the number of events until the cycle completes.\<close>

definition cycleRank :: "nat \<Rightarrow> 'a discovery \<Rightarrow> nat" where
  "cycleRank c0 v = (if c0 < length (d_completions v) then 0 else 9 - length (d_sent v))"

text \<open>An example cycle: PUMPS and SENSORS time out, the other queries are answered.\<close>

definition exampleEvents :: "string event list" where
  "exampleEvents =
     [Response 1000 (Some ''circuits''), Timeout 32000, Response 34000 (Some ''chems''),
      Response 35000 (Some ''valves''), Response 36000 (Some ''heaters''), Timeout 67000,
      Response 69000 (Some ''groups''), Response 71000 (Some ''pumps'')]"

text \<open>
  A disturbed cycle. The first five queries are answered. The query for SENSORS is not
  answered within 30 seconds and times out, and the seventh query, for GROUPS, is sent
  one second later. Then the answers to the SENSORS query and to the GROUPS query are
  received, one millisecond apart, and the two pacing timers which they set (handles 13
  and 14) fire one second after them.
\<close>

definition raceInputs :: "string input list" where
  "raceInputs =
     [Receive 1000 (Some ''circuits''), Fire 1500 1, Receive 2000 (Some ''pumps''), Fire 2500 3,
      Receive 3000 (Some ''chems''), Fire 3500 5, Receive 4000 (Some ''valves''), Fire 4500 7,
      Receive 5000 (Some ''heaters''), Fire 5500 9, Fire 35500 10, Fire 36500 11,
      Receive 36600 (Some ''sensors''), Receive 36601 (Some ''groups''),
      Fire 37600 13, Fire 37601 14]"

section \<open>Properties of the heater accessory\<close>


text \<open>
  C7. A heater accessory whose body reports the heater's own id as heat source (an
  object name: not empty, and not the sentinel 00000 that stands for no heater) and
  heat mode 4 is heating, whatever the current temperature and the two setpoints are:
  checkHeatSourceState answers, so the comparison of temperatures is not reached. With
  the same heat source, heat mode 9 gives COOL and heat mode 0 gives OFF. A heat source
  equal to the sentinel gives OFF for every accessory.
\<close>

theorem heat_source_priority:
  "(heatSource (body acc) = Some (heater_id (heater acc))
      \<and> heater_id (heater acc) \<noteq> [] \<and> heater_id (heater acc) \<noteq> ''00000'' \<longrightarrow>
      (\<forall>t l h. let acc' = acc\<lparr>temperature := t, lowTemperature := l, highTemperature := h\<rparr> in
         (heatMode (body acc) = Some (Num 4) \<longrightarrow>
            checkHeatSourceState acc' (heatSource (body acc')) (heatMode (body acc')) = Some HEAT
            \<and> getCurrentHeatingCoolingState acc' = HEAT)
       \<and> (heatMode (body acc) = Some (Num 9) \<longrightarrow> getCurrentHeatingCoolingState acc' = COOL)
       \<and> (heatMode (body acc) = Some (Num 0) \<longrightarrow> getCurrentHeatingCoolingState acc' = OFF)))
   \<and> (heatSource (body acc) = Some ''00000'' \<longrightarrow> getCurrentHeatingCoolingState acc = OFF)"
  by (simp add: getCurrentHeatingCoolingState_def checkHeatSourceState_def
        getStateFromHeatMode_def Let_def)

text \<open>
  At the example heater the water is warmer than the setpoint, so the temperatures alone
  give OFF; the reported heat source and mode give HEAT.
\<close>

theorem heat_source_priority_witness:
  "getCurrentHeatingCoolingState exampleHeater = HEAT
   \<and> checkTemperatureState (exampleHeater\<lparr>body := (body exampleHeater)\<lparr>heatMode := None\<rparr>\<rparr>) = OFF
   \<and> getCurrentHeatingCoolingState
        (exampleHeater\<lparr>body := (body exampleHeater)\<lparr>heatSource := Some ''00000''\<rparr>\<rparr>) = OFF"
  using heat_source_priority [of exampleHeater]
    heat_source_priority
      [of "exampleHeater\<lparr>body := (body exampleHeater)\<lparr>heatSource := Some ''00000''\<rparr>\<rparr>"]
  by (simp add: exampleHeater_def checkTemperatureState_def checkHeatModeState_def
        truthyNumOpt_def Let_def)



section \<open>Properties of the wire codec\<close>



lemma processMessageLine_handled:
  "processMessageLine parse line st =
     st\<lparr>handled := handled st @ (case lineResponse parse line of None \<Rightarrow> [] | Some r \<Rightarrow> [r])\<rparr>"
  by (simp add: processMessageLine_def lineResponse_def Let_def split: option.splits)

lemma foldl_processMessageLine:
  "foldl (\<lambda>s line. processMessageLine parse line s) st ls =
     st\<lparr>handled := handled st @ List.map_filter (lineResponse parse) ls\<rparr>"
proof (induction ls arbitrary: st)
  case Nil
  show ?case by (simp add: List.map_filter_simps)
next
  case (Cons l ls)
  show ?case
    by (simp only: foldl_Cons Cons.IH)
       (simp add: processMessageLine_handled List.map_filter_simps split: option.splits)
qed

lemma splitLines_nonempty: "splitLines s \<noteq> []"
  by (induction s) (auto split: list.splits)

lemma splitLines_append_nl: "splitLines (x @ CHR 0x0A # y) = splitLines x @ splitLines y"
proof (induction x)
  case Nil
  show ?case by simp
next
  case (Cons c x)
  show ?case
    using splitLines_nonempty [of x] splitLines_nonempty [of y]
    by (cases "splitLines x") (simp_all add: Cons.IH)
qed

lemma splitLines_no_nl: "CHR 0x0A \<notin> set x \<Longrightarrow> splitLines x = [x]"
  by (induction x) auto

lemma trim_Nil: "trim [] = []"
  by (simp add: trim_def)

lemma lineResponse_Nil: "lineResponse parse [] = None"
  by (simp add: lineResponse_def trim_Nil)


lemma responses_Nil: "responses parse [] = []"
  by (simp add: responses_def List.map_filter_simps lineResponse_Nil)

lemma map_filter_append: "List.map_filter f (xs @ ys) = List.map_filter f xs @ List.map_filter f ys"
  by (simp add: List.map_filter_def)

lemma responses_append:
  assumes "x \<noteq> []" "last x = CHR 0x0A"
  shows "responses parse (x @ y) = responses parse x @ responses parse y"
proof -
  obtain x' where x: "x = x' @ [CHR 0x0A]"
    using assms by (metis append_butlast_last_id)
  have a: "splitLines (x' @ CHR 0x0A # y) = splitLines x' @ splitLines y"
    by (rule splitLines_append_nl)
  have b: "splitLines (x' @ [CHR 0x0A]) = splitLines x' @ [[]]"
    using splitLines_append_nl [of x' "[]"] by simp
  show ?thesis
    by (simp add: x responses_def a b map_filter_append List.map_filter_simps lineResponse_Nil)
qed

lemma handle_complete:
  assumes "chunk \<noteq> []" "last chunk = CHR 0x0A"
  shows "handleDataReceived toStr parse chunk st =
           st\<lparr>buffer := [], handled := handled st @ responses parse (buffer st @ toStr chunk)\<rparr>"
  using assms
  by (simp add: handleDataReceived_def isCompleteMessage_def processCompleteMessage_def Let_def
        foldl_processMessageLine responses_def)

lemma handle_incomplete:
  assumes "chunk = [] \<or> last chunk \<noteq> CHR 0x0A"
    and "length (buffer st) + length chunk \<le> maxBufferSize st"
  shows "handleDataReceived toStr parse chunk st = st\<lparr>buffer := buffer st @ toStr chunk\<rparr>"
  using assms
  by (auto simp add: handleDataReceived_def isCompleteMessage_def bufferIncompleteData_def)

lemma feed_Cons: "feed toStr parse (c # cs) st = feed toStr parse cs (handleDataReceived toStr parse c st)"
  by (simp add: feed_def)

lemma feed_Nil: "feed toStr parse [] st = st"
  by (simp add: feed_def)

lemma feed_no_overflow:
  assumes "\<forall>c \<in> set cs. toStr c = c"
    and "concat cs = [] \<or> last (concat cs) = CHR 0x0A"
    and "length (buffer st) + length (concat cs) \<le> maxBufferSize st"
  shows "feed toStr parse cs st =
           (if concat cs = [] then st
            else st\<lparr>buffer := [], handled := handled st @ responses parse (buffer st @ concat cs)\<rparr>)"
  using assms
proof (induction cs arbitrary: st)
  case Nil
  show ?case by (simp add: feed_Nil)
next
  case (Cons c cs)
  have dec: "toStr c = c" and decs: "\<forall>c \<in> set cs. toStr c = c"
    using Cons.prems(1) by simp_all
  show ?case
  proof (cases "c = []")
    case True
    have h: "handleDataReceived toStr parse [] st = st"
      using handle_incomplete [of "[]" st toStr parse] True dec Cons.prems(3) by simp
    have tl: "concat cs = [] \<or> last (concat cs) = CHR 0x0A"
      using Cons.prems(2) True by simp
    have sz: "length (buffer st) + length (concat cs) \<le> maxBufferSize st"
      using Cons.prems(3) True by simp
    show ?thesis
      using Cons.IH [OF decs tl sz] True by (simp add: feed_Cons h del: concat_eq_Nil_conv)
  next
    case False
    show ?thesis
    proof (cases "last c = CHR 0x0A")
      case True
      let ?st1 = "st\<lparr>buffer := [], handled := handled st @ responses parse (buffer st @ c)\<rparr>"
      have h: "handleDataReceived toStr parse c st = ?st1"
        using handle_complete [OF False True, of toStr parse st] dec by simp
      have tl: "concat cs = [] \<or> last (concat cs) = CHR 0x0A"
        using Cons.prems(2) by (cases "concat cs = []") (simp_all del: concat_eq_Nil_conv)
      have sz: "length (buffer ?st1) + length (concat cs) \<le> maxBufferSize ?st1"
        using Cons.prems(3) by simp
      have bc: "buffer st @ c \<noteq> []" "last (buffer st @ c) = CHR 0x0A"
        using False True by simp_all
      show ?thesis
        using Cons.IH [OF decs tl sz] False responses_append [OF bc, of parse "concat cs"]
        by (simp add: feed_Cons h responses_Nil del: concat_eq_Nil_conv)
    next
      case nl: False
      let ?st1 = "st\<lparr>buffer := buffer st @ c\<rparr>"
      have h: "handleDataReceived toStr parse c st = ?st1"
        using handle_incomplete [of c st toStr parse] nl Cons.prems(3) dec by simp
      have ne: "concat cs \<noteq> []"
        using Cons.prems(2) False nl by (cases "concat cs = []") (simp_all del: concat_eq_Nil_conv)
      have tl: "concat cs = [] \<or> last (concat cs) = CHR 0x0A"
        using Cons.prems(2) ne by (simp del: concat_eq_Nil_conv)
      have sz: "length (buffer ?st1) + length (concat cs) \<le> maxBufferSize ?st1"
        using Cons.prems(3) by simp
      show ?thesis
        using Cons.IH [OF decs tl sz] False ne by (simp add: feed_Cons h del: concat_eq_Nil_conv)
    qed
  qed
qed

text \<open>
  C1, as amended. The claim holds where the buffer cannot overflow and the text is ASCII:
  for a payload of newline-terminated lines (empty, or ending in a newline) whose bytes
  are ASCII and which, together with the buffered text, is no longer than the maximum
  buffer size, feeding the chunks of any split in order leaves the platform in the same
  state as feeding the payload as one chunk: the same responses were passed to
  handleUpdate, in the same order, and the buffer is the same.
\<close>

theorem chunking_invariance:
  assumes ascii: "\<forall>b \<in> set (concat chunks). isAscii b"
    and dec: "\<And>bs. (\<forall>b \<in> set bs. isAscii b) \<Longrightarrow> toStr bs = bs"
    and nl: "concat chunks = [] \<or> last (concat chunks) = CHR 0x0A"
    and size: "length (buffer st) + length (concat chunks) \<le> maxBufferSize st"
  shows "feed toStr parse chunks st = feed toStr parse [concat chunks] st"
proof -
  have d1: "\<forall>c \<in> set chunks. toStr c = c"
    using ascii dec by auto
  have d2: "\<forall>c \<in> set [concat chunks]. toStr c = c"
    using ascii dec by auto
  have a: "concat [concat chunks] = concat chunks" by simp
  show ?thesis
    using feed_no_overflow [OF d1 nl size, of parse]
      feed_no_overflow [OF d2, of st parse] nl size
    by (simp only: a) 
qed

theorem chunking_invariance_witness:
  \<open>feed (\<lambda>bs. bs) Some [''{"a"'', '':1}'' @ nl @ ''{"b":2}'' @ nl] codec0
     = feed (\<lambda>bs. bs) Some [concat [''{"a"'', '':1}'' @ nl @ ''{"b":2}'' @ nl]] codec0
   \<and> handled (feed (\<lambda>bs. bs) Some [''{"a"'', '':1}'' @ nl @ ''{"b":2}'' @ nl] codec0)
     = [''{"a":1}'', ''{"b":2}'']\<close>
  using chunking_invariance [of \<open>[''{"a"'', '':1}'' @ nl @ ''{"b":2}'' @ nl]\<close> "\<lambda>bs. bs" codec0 Some]
  by (simp add: codec0_def nl_def isAscii_def feed_def handleDataReceived_def isCompleteMessage_def
        processCompleteMessage_def bufferIncompleteData_def processMessageLine_def trim_def
        isWhiteSpace_def isValidJsonStructure_def Let_def)


text \<open>
  The claim as stated fails for a line longer than the buffer: with the default maximum of
  1048576, a line of 1048584 bytes split before its last two bytes is discarded by
  bufferIncompleteData, and nothing is parsed, while the same payload in one chunk is
  parsed.
\<close>

lemma trim_id:
  assumes "s \<noteq> []" "\<not> isWhiteSpace (hd s)" "\<not> isWhiteSpace (last s)"
  shows "trim s = s"
proof -
  have a: "dropWhile isWhiteSpace s = s"
    using assms(1,2) by (cases s) simp_all
  have b: "dropWhile isWhiteSpace (rev s) = rev s"
    using assms(1,3) by (cases "rev s") (simp_all add: last_rev [symmetric] hd_rev)
  show ?thesis by (simp add: trim_def a b)
qed

theorem chunking_overflow_counterexample:
  \<open>handled (feed (\<lambda>bs. bs) Some [''{"a":"'' @ replicate 1048576 CHR ''x'', ''"}'' @ nl] codec0) = []
   \<and> handled (feed (\<lambda>bs. bs) Some
        [concat [''{"a":"'' @ replicate 1048576 CHR ''x'', ''"}'' @ nl]] codec0) = [bigLine]\<close>
proof -
  have 1: \<open>handled (feed (\<lambda>bs. bs) Some [''{"a":"'' @ replicate 1048576 CHR ''x'', ''"}'' @ nl] codec0) = []\<close>
    by (simp add: codec0_def nl_def feed_def handleDataReceived_def isCompleteMessage_def
        processCompleteMessage_def bufferIncompleteData_def processMessageLine_def trim_def
        isWhiteSpace_def isValidJsonStructure_def Let_def)
  have nonl: "CHR 0x0A \<notin> set bigLine"
    by (simp add: bigLine_def)
  have sp: "splitLines (bigLine @ CHR 0x0A # []) = [bigLine, []]"
    using splitLines_append_nl [of bigLine "[]"] splitLines_no_nl [OF nonl] by simp
  have tr: "trim bigLine = bigLine"
    by (rule trim_id) (simp_all add: bigLine_def isWhiteSpace_def)
  have va: "isValidJsonStructure bigLine"
    by (simp add: isValidJsonStructure_def bigLine_def)
  have cc: \<open>concat [''{"a":"'' @ replicate 1048576 CHR ''x'', ''"}'' @ nl] = bigLine @ [CHR 0x0A]\<close>
    by (simp add: bigLine_def nl_def)
  have ne: "bigLine \<noteq> []" by (simp add: bigLine_def)
  have 2: \<open>handled (feed (\<lambda>bs. bs) Some
        [concat [''{"a":"'' @ replicate 1048576 CHR ''x'', ''"}'' @ nl]] codec0) = [bigLine]\<close>
    unfolding cc
    using sp tr va ne
    by (simp add: codec0_def feed_def handleDataReceived_def isCompleteMessage_def
        processCompleteMessage_def processMessageLine_def trim_Nil Let_def)
  show ?thesis using 1 2 by simp
qed

lemma handleDataReceived_maxBufferSize:
  "maxBufferSize (handleDataReceived toStr parse chunk st) = maxBufferSize st"
  by (simp add: handleDataReceived_def processCompleteMessage_def bufferIncompleteData_def
        foldl_processMessageLine Let_def)

lemma handleDataReceived_bound:
  assumes "length (toStr chunk) \<le> length chunk"
  shows "length (buffer (handleDataReceived toStr parse chunk st)) \<le> maxBufferSize st"
  using assms
  by (simp add: handleDataReceived_def processCompleteMessage_def bufferIncompleteData_def
        foldl_processMessageLine Let_def)

lemma feed_bound:
  assumes "\<And>c. length (toStr c) \<le> length c" and "chunks \<noteq> []"
  shows "length (buffer (feed toStr parse chunks st)) \<le> maxBufferSize st"
  using assms(2)
proof (induction chunks arbitrary: st)
  case Nil
  then show ?case by simp
next
  case (Cons c cs)
  show ?case
  proof (cases "cs = []")
    case True
    then show ?thesis
      using handleDataReceived_bound [where toStr = toStr and chunk = c and parse = parse and st = st]
        assms(1) by (simp add: feed_Cons feed_Nil)
  next
    case False
    then show ?thesis
      using Cons.IH [OF False, of "handleDataReceived toStr parse c st"]
      by (simp add: feed_Cons handleDataReceived_maxBufferSize)
  qed
qed

text \<open>
  C2. For a chunk that does not end in a newline, when the length of the buffer plus
  the length of the chunk exceeds the maximum, the handler leaves the platform as it
  was except for an empty buffer: nothing was passed to handleUpdate and no discarded
  byte is kept, so nothing can be parsed from them later. After any chunk, and after any
  sequence of chunks, the buffer is no longer than the maximum. The conversion of a chunk
  to text does not yield more code units than the chunk has bytes, as is the case for
  the UTF-8 decoding of the runtime.
\<close>

theorem buffer_bound:
  assumes "\<And>c. length (toStr c) \<le> length c"
  shows "(\<not> isCompleteMessage chunk \<and> length (buffer st) + length chunk > maxBufferSize st \<longrightarrow>
            handleDataReceived toStr parse chunk st = st\<lparr>buffer := []\<rparr>)
       \<and> length (buffer (handleDataReceived toStr parse chunk st)) \<le> maxBufferSize st
       \<and> (\<forall>chunks. chunks \<noteq> [] \<longrightarrow>
            length (buffer (feed toStr parse chunks st)) \<le> maxBufferSize st)"
  using handleDataReceived_bound [where toStr = toStr and chunk = chunk and parse = parse and st = st]
    feed_bound [where toStr = toStr and parse = parse and st = st] assms
  by (simp add: handleDataReceived_def bufferIncompleteData_def)

theorem buffer_bound_witness:
  \<open>handleDataReceived (\<lambda>bs. bs) Some (replicate 65537 CHR ''x'')
      \<lparr> buffer = ''{"a":'', maxBufferSize = 65536, handled = [] \<rparr>
     = \<lparr> buffer = [], maxBufferSize = 65536, handled = ([] :: string list) \<rparr>
   \<and> \<not> isCompleteMessage (replicate 65537 CHR ''x'')\<close>
  using buffer_bound [of "\<lambda>bs. bs" "replicate 65537 CHR ''x''"
      \<open>\<lparr> buffer = ''{"a":'', maxBufferSize = 65536, handled = ([] :: string list) \<rparr>\<close> Some]
  by (simp add: isCompleteMessage_def)

section \<open>Properties of the command path\<close>


lemma drainQueue_Nil:
  "commandQueue st = [] \<Longrightarrow> drainQueue send now st = st"
  by (simp add: drainQueue.simps [of send now st])

lemma drainQueue_Cons_sent:
  "commandQueue st = cmd # q \<Longrightarrow> isSocketAlive st \<Longrightarrow> send cmd = None \<Longrightarrow>
   drainQueue send now st = drainQueue send now (st\<lparr>commandQueue := q, wire := wire st @ [cmd]\<rparr>)"
  by (simp add: drainQueue.simps [of send now st] Let_def)

lemma drainQueue_Cons_failed:
  "commandQueue st = cmd # q \<Longrightarrow> isSocketAlive st \<Longrightarrow> send cmd = Some err \<Longrightarrow>
   \<not> isConnectionError err \<Longrightarrow>
   drainQueue send now st =
     drainQueue send now (st\<lparr>commandQueue := q, deadLetters := deadLetters st @ [deadLetter cmd err]\<rparr>)"
  by (simp add: drainQueue.simps [of send now st] Let_def)

lemma drainQueue_Cons_connection:
  "commandQueue st = cmd # q \<Longrightarrow> isSocketAlive st \<Longrightarrow> send cmd = Some err \<Longrightarrow>
   isConnectionError err \<Longrightarrow>
   drainQueue send now st =
     maybeReconnect now (st\<lparr>commandQueue := q, deadLetters := deadLetters st @ [deadLetter cmd err]\<rparr>)"
  by (simp add: drainQueue.simps [of send now st] Let_def)


lemma drained_Nil: "commandQueue st = [] \<Longrightarrow> drained send now [] st = st"
  by (simp add: drained_def sentOf_def failedOf_def List.map_filter_simps)

lemma drained_Cons_sent:
  assumes "send cmd = None"
  shows "drained send now (cmd # q) st =
           drained send now q (st\<lparr>commandQueue := q, wire := wire st @ [cmd]\<rparr>)"
proof -
  have nf: "\<not> connFails send cmd" using assms by (simp add: connFails_def)
  show ?thesis
    using assms nf
    by (cases "dropWhile (\<lambda>c. \<not> connFails send c) q")
       (simp_all add: drained_def sentOf_def failedOf_def List.map_filter_simps del: dropWhile_eq_Nil_conv)
qed

lemma drained_Cons_failed:
  assumes "send cmd = Some err" "\<not> isConnectionError err"
  shows "drained send now (cmd # q) st =
     drained send now q (st\<lparr>commandQueue := q, deadLetters := deadLetters st @ [deadLetter cmd err]\<rparr>)"
proof -
  have nf: "\<not> connFails send cmd" using assms by (simp add: connFails_def)
  show ?thesis
    using assms(1) nf
    by (cases "dropWhile (\<lambda>c. \<not> connFails send c) q")
       (simp_all add: drained_def sentOf_def failedOf_def List.map_filter_simps del: dropWhile_eq_Nil_conv)
qed

lemma drained_Cons_connection:
  assumes "send cmd = Some err" "isConnectionError err"
  shows "drained send now (cmd # q) st =
     maybeReconnect now (st\<lparr>commandQueue := q, deadLetters := deadLetters st @ [deadLetter cmd err]\<rparr>)"
proof -
  have cf: "connFails send cmd" using assms by (simp add: connFails_def)
  show ?thesis
    using assms(1) cf
    by (simp add: drained_def sentOf_def failedOf_def List.map_filter_simps)
qed

lemma drainQueue_drained:
  "commandQueue st = q \<Longrightarrow> isSocketAlive st \<Longrightarrow> drainQueue send now st = drained send now q st"
proof (induction q arbitrary: st)
  case Nil
  then show ?case by (simp add: drainQueue_Nil drained_Nil)
next
  case (Cons cmd q)
  show ?case
  proof (cases "send cmd")
    case None
    show ?thesis
      using Cons.IH [of "st\<lparr>commandQueue := q, wire := wire st @ [cmd]\<rparr>"] Cons.prems
      by (simp add: drainQueue_Cons_sent [where send = send and cmd = cmd and st = st and q = q]
            drained_Cons_sent [where send = send and cmd = cmd] None)
  next
    case (Some err)
    show ?thesis
    proof (cases "isConnectionError err")
      case True
      show ?thesis
        using Cons.prems
        by (simp add: drainQueue_Cons_connection [where send = send and cmd = cmd and st = st and q = q and err = err]
              drained_Cons_connection [where send = send and cmd = cmd and err = err] Some True)
    next
      case False
      show ?thesis
        using Cons.IH [of "st\<lparr>commandQueue := q, deadLetters := deadLetters st @ [deadLetter cmd err]\<rparr>"]
          Cons.prems
        by (simp add: drainQueue_Cons_failed [where send = send and cmd = cmd and st = st and q = q and err = err]
              drained_Cons_failed [where send = send and cmd = cmd and err = err] Some False)
    qed
  qed
qed













text \<open>
  C3. With the limiter of 40 requests per 60000 milliseconds, a call of sendCommandNoWait
  made when 40 commands were admitted within the last 60000 milliseconds drops the
  command: the platform is left as it was but for the limiter's pruned list of times,
  so the command is not appended to the queue, not written to the connection, not
  handed to the dead letter queue, no reconnect is started, and the resulting state does
  not depend on the command, which leaves nothing to retry.
\<close>

theorem rate_limited_command_dropped:
  assumes "maxRequests (rateLimiter st) = 40" and "windowMs (rateLimiter st) = 60000"
    and "40 \<le> length (filter (\<lambda>t. now - t < 60000) (requests (rateLimiter st)))"
  shows "sendCommandNoWait send gen now cmd st =
           st\<lparr>rateLimiter := (rateLimiter st)
                \<lparr>requests := filter (\<lambda>t. now - t < 60000) (requests (rateLimiter st))\<rparr>\<rparr>
       \<and> commandQueue (sendCommandNoWait send gen now cmd st) = commandQueue st
       \<and> wire (sendCommandNoWait send gen now cmd st) = wire st
       \<and> deadLetters (sendCommandNoWait send gen now cmd st) = deadLetters st
       \<and> reconnects (sendCommandNoWait send gen now cmd st) = reconnects st
       \<and> (\<forall>other. sendCommandNoWait send gen now other st = sendCommandNoWait send gen now cmd st)"
  using assms by (simp add: sendCommandNoWait_def recordRequest_def Let_def)

theorem rate_limited_command_dropped_witness:
  "sendCommandNoWait exampleSend exampleGen 40000 cmdA platformBusy = platformBusy
   \<and> length (requests (rateLimiter platformBusy)) = 40
   \<and> commandQueue (sendCommandNoWait exampleSend exampleGen 40000 cmdA platformBusy) = []
   \<and> wire (sendCommandNoWait exampleSend exampleGen 40000 cmdA platformBusy) = []"
proof -
  have f: "filter (\<lambda>t. 40000 - t < 60000) (map (\<lambda>i. 1000 * int i) [0..<40])
             = map (\<lambda>i. 1000 * int i) [0..<40]"
    by (rule filter_True) auto
  show ?thesis
    using rate_limited_command_dropped [of platformBusy 40000 exampleSend exampleGen cmdA]
    by (simp add: platformBusy_def platform0_def limiter0_def f)
qed










section \<open>Properties of the inbound status updates\<close>

text \<open>
  C8, as amended. The update of a pump circuit overwrites exactly those tracked fields
  (status, speed, rpm, gpm, watts) whose key carries a truthy value in the message (a
  non-empty string, a number other than 0 and NaN, or true); a tracked field whose key
  is absent, or present with a falsy value, keeps its previous value, and so do the
  other fields.
\<close>

theorem pump_circuit_update:
  "status (updatePumpCircuitProperties toNumber pc ps)
     = (if truthyOpt (ps ''STATUS'') then ps ''STATUS'' else status pc)
   \<and> speed (updatePumpCircuitProperties toNumber pc ps)
     = (if truthyOpt (ps ''SPEED'') then toNumber (the (ps ''SPEED'')) else speed pc)
   \<and> rpm (updatePumpCircuitProperties toNumber pc ps)
     = (if truthyOpt (ps ''RPM'') then Some (toNumber (the (ps ''RPM''))) else rpm pc)
   \<and> gpm (updatePumpCircuitProperties toNumber pc ps)
     = (if truthyOpt (ps ''GPM'') then Some (toNumber (the (ps ''GPM''))) else gpm pc)
   \<and> watts (updatePumpCircuitProperties toNumber pc ps)
     = (if truthyOpt (ps ''WATTS'') then Some (toNumber (the (ps ''WATTS''))) else watts pc)
   \<and> pc_id (updatePumpCircuitProperties toNumber pc ps) = pc_id pc
   \<and> circuitId (updatePumpCircuitProperties toNumber pc ps) = circuitId pc
   \<and> speedType (updatePumpCircuitProperties toNumber pc ps) = speedType pc
   \<and> (ps ''STATUS'' = None \<longrightarrow> status (updatePumpCircuitProperties toNumber pc ps) = status pc)
   \<and> (ps ''SPEED'' = None \<longrightarrow> speed (updatePumpCircuitProperties toNumber pc ps) = speed pc)
   \<and> (ps ''RPM'' = None \<longrightarrow> rpm (updatePumpCircuitProperties toNumber pc ps) = rpm pc)
   \<and> (ps ''GPM'' = None \<longrightarrow> gpm (updatePumpCircuitProperties toNumber pc ps) = gpm pc)
   \<and> (ps ''WATTS'' = None \<longrightarrow> watts (updatePumpCircuitProperties toNumber pc ps) = watts pc)"
  by (simp add: updatePumpCircuitProperties_def Let_def truthyOpt_def)

theorem pump_circuit_update_witness:
  "updatePumpCircuitProperties exampleNumber examplePumpCircuit
       [''SPEED'' \<mapsto> PStr ''1200'', ''RPM'' \<mapsto> PStr ''1200'']
     = examplePumpCircuit\<lparr>speed := Num 1200, rpm := Some (Num 1200)\<rparr>"
  using pump_circuit_update [of exampleNumber examplePumpCircuit
      "[''SPEED'' \<mapsto> PStr ''1200'', ''RPM'' \<mapsto> PStr ''1200'']"]
  by (simp add: examplePumpCircuit_def updatePumpCircuitProperties_def Let_def truthyOpt_def)

text \<open>
  The claim as stated fails for a key that is present with a falsy value: a message that
  turns the circuit off and reports 0 RPM overwrites the status and keeps the rpm of 2400.
\<close>

theorem pump_circuit_falsy_counterexample:
  "[''STATUS'' \<mapsto> PStr ''OFF'', ''RPM'' \<mapsto> PNum (Num 0)] ''RPM'' = Some (PNum (Num 0))
   \<and> exampleNumber (PNum (Num 0)) = Num 0
   \<and> rpm (updatePumpCircuitProperties exampleNumber examplePumpCircuit
            [''STATUS'' \<mapsto> PStr ''OFF'', ''RPM'' \<mapsto> PNum (Num 0)]) = Some (Num 2400)
   \<and> status (updatePumpCircuitProperties exampleNumber examplePumpCircuit
            [''STATUS'' \<mapsto> PStr ''OFF'', ''RPM'' \<mapsto> PNum (Num 0)]) = Some (PStr ''OFF'')"
  by (simp add: examplePumpCircuit_def updatePumpCircuitProperties_def Let_def truthyOpt_def)

text \<open>
  C10. For a status update on an accessory whose circuit is an IntelliBrite light or a
  light show group, the stored active colour becomes the USE parameter when the message
  has one; otherwise it becomes the ACT parameter, unless that is the string 65535, in
  which case, as when the message has neither, the active colour is left as it was.
  Nothing else of the context changes.
\<close>

theorem intellibrite_color_update:
  assumes "circuit ctx = Some c"
    and "circuit_type c = CircuitType_IntelliBrite \<or> circuit_type c = CircuitType_LightShowGroup"
  shows "updateIntelliBriteColor ctx ps =
           ctx\<lparr>activeColor :=
                 (case ps USE_KEY of
                    Some u \<Rightarrow> Some u
                  | None \<Rightarrow>
                      (case ps ACT_KEY of
                         None \<Rightarrow> activeColor ctx
                       | Some a \<Rightarrow> if a = PStr ''65535'' then activeColor ctx else Some a))\<rparr>"
  using assms
  by (auto simp add: updateIntelliBriteColor_def Let_def split: option.splits)

theorem intellibrite_color_update_witness:
  "activeColor (updateIntelliBriteColor exampleLight
       [USE_KEY \<mapsto> PStr ''GREENR'', ACT_KEY \<mapsto> PStr ''65535'']) = Some (PStr ''GREENR'')
   \<and> activeColor (updateIntelliBriteColor exampleLight [ACT_KEY \<mapsto> PStr ''SAMMOD''])
       = Some (PStr ''SAMMOD'')
   \<and> updateIntelliBriteColor exampleLight [ACT_KEY \<mapsto> PStr ''65535''] = exampleLight
   \<and> updateIntelliBriteColor exampleLight [STATUS_KEY \<mapsto> PStr ''ON''] = exampleLight"
  using
    intellibrite_color_update [of exampleLight "the (circuit exampleLight)"
      "[USE_KEY \<mapsto> PStr ''GREENR'', ACT_KEY \<mapsto> PStr ''65535'']"]
    intellibrite_color_update [of exampleLight "the (circuit exampleLight)"
      "[ACT_KEY \<mapsto> PStr ''SAMMOD'']"]
    intellibrite_color_update [of exampleLight "the (circuit exampleLight)"
      "[ACT_KEY \<mapsto> PStr ''65535'']"]
    intellibrite_color_update [of exampleLight "the (circuit exampleLight)"
      "[STATUS_KEY \<mapsto> PStr ''ON'']"]
  by (simp add: exampleLight_def CircuitType_IntelliBrite_def USE_KEY_def ACT_KEY_def STATUS_KEY_def)

section \<open>Properties of the discovery\<close>

subsection \<open>The handlers on the discovery fields\<close>

lemma drainQueue_dead: "\<not> isSocketAlive st \<Longrightarrow> drainQueue send now st = st"
  by (simp add: drainQueue.simps [of send now st])

lemma maybeReconnect_view: "timedView (maybeReconnect now st) = timedView st"
  by (simp add: maybeReconnect_def timedView_def)

lemma drained_view: "timedView (drained send now q st) = timedView st"
  by (cases "dropWhile (\<lambda>c. \<not> connFails send c) q")
     (simp_all add: drained_def maybeReconnect_def timedView_def del: dropWhile_eq_Nil_conv)

lemma processCommandQueue_view:
  "timedView (processCommandQueue send now st) = timedView st"
proof (cases "isSocketAlive st")
  case True
  have "timedView (drainQueue send now (st\<lparr>processingQueue := True\<rparr>))
          = timedView (st\<lparr>processingQueue := True\<rparr>)"
    using True drained_view [of send now "commandQueue st" "st\<lparr>processingQueue := True\<rparr>"]
    by (simp add: drainQueue_drained)
  then show ?thesis
    by (simp add: processCommandQueue_def timedView_def)
next
  case False
  then show ?thesis
    by (simp add: processCommandQueue_def drainQueue_dead timedView_def)
qed

lemma sendCommandNoWait_view:
  "timedView (sendCommandNoWait send gen now cmd st) = timedView st"
proof -
  obtain allowed rl where rr: "recordRequest now (rateLimiter st) = (allowed, rl)"
    by (cases "recordRequest now (rateLimiter st)")
  obtain sc k where sc: "sanitizeCommand gen (uuidCalls st) cmd = (sc, k)"
    by (cases "sanitizeCommand gen (uuidCalls st) cmd")
  have a: "timedView (st\<lparr>rateLimiter := rl\<rparr>) = timedView st"
    by (simp add: timedView_def)
  have b: "timedView (st\<lparr>rateLimiter := rl, uuidCalls := k, commandQueue := commandQueue st @ [sc]\<rparr>)
             = timedView st"
    by (simp add: timedView_def)
  show ?thesis
    using rr sc a b
    by (simp add: sendCommandNoWait_def Let_def maybeReconnect_view processCommandQueue_view)
qed

lemma view_fields:
  "t_sent (timedView st) = discoverCommandsSent st"
  "t_failed (timedView st) = discoverCommandsFailed st"
  "t_timeout (timedView st) = discoveryTimeout st"
  "t_buffer (timedView st) = discoveryBuffer st"
  "t_completions (timedView st) = completions st"
  "t_timers (timedView st) = timers st"
  "t_timerCount (timedView st) = timerCount st"
  by (simp_all add: timedView_def)

lemma setTimeout_view: "timedView (setTimeout c d st) = timedSet c d (timedView st)"
  by (simp add: setTimeout_def timedSet_def timedView_def)

lemma clearTimeout_view: "timedView (clearTimeout h st) = timedClear h (timedView st)"
  by (simp add: clearTimeout_def timedClear_def timedView_def)

lemma discoverDeviceType_view:
  "timedView (discoverDeviceType send gen now d st) = timedDiscover d (timedView st)"
  by (simp add: discoverDeviceType_def Let_def sendCommandNoWait_view)
     (simp add: timedView_def timedDiscover_def timedSet_def setTimeout_def)

lemma completeDiscoveryWithPartialData_view:
  "timedView (completeDiscoveryWithPartialData st) = timedComplete (timedView st)"
  by (simp add: completeDiscoveryWithPartialData_def timedComplete_def timedView_def)

lemma completeDiscovery_view:
  "timedView (completeDiscovery st) = timedComplete (timedView st)"
  by (simp add: completeDiscovery_def timedComplete_def timedView_def)

lemma view_update1:
  "timedView (st\<lparr>discoverCommandsFailed := F, discoveryTimeout := T\<rparr>)
     = (timedView st)\<lparr>t_failed := F, t_timeout := T\<rparr>"
  by (simp add: timedView_def)

lemma handleDiscoveryTimeout_view:
  "timedView (handleDiscoveryTimeout d st) = timedTimeout d (timedView st)"
  unfolding handleDiscoveryTimeout_def timedTimeout_def Let_def
  by (simp add: setTimeout_view completeDiscoveryWithPartialData_view view_update1 view_fields)

lemma clearDiscoveryTimeout_view:
  "timedView (clearDiscoveryTimeout st) =
     (case t_timeout (timedView st) of
        None \<Rightarrow> timedView st
      | Some handle \<Rightarrow> (timedClear handle (timedView st))\<lparr>t_timeout := None\<rparr>)"
  by (simp add: clearDiscoveryTimeout_def timedView_def timedClear_def clearTimeout_def
        split: option.splits)

lemma mergeDiscoveryResponse_view:
  "timedView (mergeDiscoveryResponse answer st) = timedMerge answer (timedView st)"
  by (simp add: mergeDiscoveryResponse_def timedMerge_def timedView_def split: option.splits)

lemma shouldRetryCommand_view:
  "shouldRetryCommand st = (\<lambda>f. length (filter (\<lambda>cmd. cmd = f) (t_sent (timedView st))) = 1)"
  by (simp add: shouldRetryCommand_def fun_eq_iff view_fields)

lemma handleDiscoveryResponse_view:
  "timedView (handleDiscoveryResponse answer st) = timedResponse answer (timedView st)"
proof -
  let ?st2 = "mergeDiscoveryResponse answer (clearDiscoveryTimeout st)"
  let ?v2 = "timedMerge answer
               (case t_timeout (timedView st) of
                  None \<Rightarrow> timedView st
                | Some handle \<Rightarrow> (timedClear handle (timedView st))\<lparr>t_timeout := None\<rparr>)"
  have v2: "timedView ?st2 = ?v2"
    by (simp only: mergeDiscoveryResponse_view clearDiscoveryTimeout_view)
  have l: "handleDiscoveryResponse answer st =
     (if length (discoverCommandsSent ?st2) < length DISCOVER_COMMANDS
      then setTimeout (NextCommandCallback (length (discoverCommandsSent ?st2))) 500 ?st2
      else if length (discoverCommandsFailed ?st2) = 0
              \<or> length (discoverCommandsSent ?st2) \<noteq> length DISCOVER_COMMANDS
        then completeDiscovery ?st2
      else (case find (shouldRetryCommand ?st2) (discoverCommandsFailed ?st2) of
                 Some failedCommand \<Rightarrow> setTimeout (RetryCallback failedCommand) 1000 ?st2
               | None \<Rightarrow> completeDiscovery ?st2))"
    by (simp add: handleDiscoveryResponse_def Let_def)
  have r: "timedResponse answer (timedView st) =
     (if length (t_sent ?v2) < length DISCOVER_COMMANDS
      then timedSet (NextCommandCallback (length (t_sent ?v2))) 500 ?v2
      else if length (t_failed ?v2) = 0 \<or> length (t_sent ?v2) \<noteq> length DISCOVER_COMMANDS
        then timedComplete ?v2
      else (case find (\<lambda>f. length (filter (\<lambda>cmd. cmd = f) (t_sent ?v2)) = 1) (t_failed ?v2) of
                 Some failedCommand \<Rightarrow> timedSet (RetryCallback failedCommand) 1000 ?v2
               | None \<Rightarrow> timedComplete ?v2))"
    by (simp add: timedResponse_def Let_def)
  have f: "discoverCommandsSent ?st2 = t_sent ?v2" "discoverCommandsFailed ?st2 = t_failed ?v2"
    using v2 view_fields(1,2) [of ?st2] by simp_all
  have s: "shouldRetryCommand ?st2 = (\<lambda>f. length (filter (\<lambda>cmd. cmd = f) (t_sent ?v2)) = 1)"
    using v2 by (simp add: shouldRetryCommand_view)
  show ?thesis
    unfolding l r f s
    by (simp add: setTimeout_view completeDiscovery_view v2 split: option.splits)
qed

lemma runCallback_view:
  "timedView (runCallback send gen now c st) = timedCallback c (timedView st)"
  by (cases c)
     (simp_all add: runCallback_def timedCallback_def handleDiscoveryTimeout_view discoverDeviceType_view)

lemma step_view: "timedView (step send gen i st) = timedStep i (timedView st)"
proof (cases i)
  case (Receive now answer)
  then show ?thesis
    by (simp add: step_def timedStep_def handleDiscoveryResponse_view)
next
  case (Fire now h)
  show ?thesis
  proof (cases "find (\<lambda>t. fst t = h) (timers st)")
    case None
    then show ?thesis
      using Fire by (simp add: step_def timedStep_def view_fields)
  next
    case (Some t)
    then show ?thesis
      using Fire by (simp add: step_def timedStep_def view_fields runCallback_view clearTimeout_view)
  qed
qed

lemma run_view:
  "timedView (run send gen inputs st) = foldl (\<lambda>w i. timedStep i w) (timedView st) inputs"
proof (induction inputs arbitrary: st)
  case Nil
  show ?case by (simp add: run_def)
next
  case (Cons i inputs)
  show ?case
    using Cons.IH [of "step send gen i st"] by (simp add: run_def step_view)
qed

lemma settle_view: "timedView (settle send gen now st) = timedSettle (timedView st)"
proof (cases "find (\<lambda>t. isPacing (snd (snd t))) (timers st)")
  case None
  then show ?thesis
    by (simp add: settle_def timedSettle_def view_fields)
next
  case (Some t)
  have "timedStep (Fire (now + fst (snd t)) (fst t)) v = timedStep (Fire 0 (fst t)) v" for v :: "'a timed"
    by (simp add: timedStep_def)
  then show ?thesis
    using Some by (simp add: settle_def timedSettle_def view_fields step_view)
qed

lemma undisturbedStep_view:
  "timedView (undisturbedStep send gen e st) = timedUndisturbed e (timedView st)"
proof (cases e)
  case (Response now answer)
  then show ?thesis
    by (simp add: undisturbedStep_def timedUndisturbed_def settle_view step_view)
next
  case (Timeout now)
  then show ?thesis
    by (cases "discoveryTimeout st")
       (simp_all add: undisturbedStep_def timedUndisturbed_def settle_view step_view view_fields)
qed

lemma undisturbedRun_view:
  "timedView (undisturbedRun send gen es st)
     = foldl (\<lambda>w e. timedUndisturbed e w) (timedView st) es"
proof (induction es arbitrary: st)
  case Nil
  show ?case by (simp add: undisturbedRun_def)
next
  case (Cons e es)
  show ?case
    using Cons.IH [of "undisturbedStep send gen e st"]
    by (simp add: undisturbedRun_def undisturbedStep_view)
qed

subsection \<open>The undisturbed discovery on five fields\<close>

lemma oneTimer_cases:
  assumes "oneTimer v"
  obtains (idle) "t_timers v = []" "t_timeout v = None"
  | (waiting) h delay d where "t_timers v = [(h, delay, TimeoutCallback d)]"
      "t_timeout v = Some h"
proof (cases "t_timers v")
  case Nil
  then show ?thesis using assms idle by (simp add: oneTimer_def)
next
  case (Cons t ts)
  obtain h delay c where t: "t = (h, delay, c)" by (cases t)
  have p: "ts = []" "\<not> isPacing c" "t_timeout v = Some h"
    using assms Cons t by (simp_all add: oneTimer_def)
  obtain d where "c = TimeoutCallback d"
    using p(2) by (cases c) (simp_all add: isPacing_def)
  then show ?thesis
    using waiting Cons t p by simp
qed

lemma discoveryView_fields:
  "d_sent (discoveryView v) = t_sent v"
  "d_failed (discoveryView v) = t_failed v"
  "d_buffer (discoveryView v) = t_buffer v"
  "d_completions (discoveryView v) = t_completions v"
  by (simp_all add: discoveryView_def)

lemma timedMerge_fields:
  "t_sent (timedMerge a v) = t_sent v"
  "t_failed (timedMerge a v) = t_failed v"
  "t_timeout (timedMerge a v) = t_timeout v"
  "t_timers (timedMerge a v) = t_timers v"
  "t_timerCount (timedMerge a v) = t_timerCount v"
  "t_completions (timedMerge a v) = t_completions v"
  by (simp_all add: timedMerge_def split: option.splits)

text \<open>An answer, and the pacing timer it sets, when no timer is set.\<close>

lemma timedResponse_idle:
  assumes "t_timers v = []" and "t_timeout v = None"
  shows "oneTimer (timedSettle (timedResponse a v))
       \<and> discoveryView (timedSettle (timedResponse a v)) = viewResponse a (discoveryView v)"
proof -
  let ?v2 = "timedMerge a v"
  have m: "t_timers ?v2 = []" "t_timeout ?v2 = None" "t_sent ?v2 = t_sent v"
    "t_failed ?v2 = t_failed v"
    using assms by (simp_all add: timedMerge_fields)
  have w: "discoveryView ?v2 =
      (case d_buffer (discoveryView v) of
         None \<Rightarrow> (discoveryView v)\<lparr>d_timeout := None, d_buffer := map_option (\<lambda>a. [a]) a\<rparr>
       | Some merged \<Rightarrow>
           (case a of
              None \<Rightarrow> (discoveryView v)\<lparr>d_timeout := None\<rparr>
            | Some b \<Rightarrow> (discoveryView v)\<lparr>d_timeout := None, d_buffer := Some (merged @ [b])\<rparr>))"
    using assms by (simp add: discoveryView_def timedMerge_def split: option.splits)
  have r: "timedResponse a v =
     (if length (t_sent ?v2) < length DISCOVER_COMMANDS
      then timedSet (NextCommandCallback (length (t_sent ?v2))) 500 ?v2
      else if length (t_failed ?v2) = 0 \<or> length (t_sent ?v2) \<noteq> length DISCOVER_COMMANDS
        then timedComplete ?v2
      else (case find (\<lambda>f. length (filter (\<lambda>cmd. cmd = f) (t_sent ?v2)) = 1) (t_failed ?v2) of
                 Some failedCommand \<Rightarrow> timedSet (RetryCallback failedCommand) 1000 ?v2
               | None \<Rightarrow> timedComplete ?v2))"
    using assms by (simp add: timedResponse_def Let_def)
  have q: "viewResponse a (discoveryView v) =
     (if length (t_sent ?v2) < length DISCOVER_COMMANDS then
           (if DISCOVER_COMMANDS ! length (t_sent ?v2) \<noteq> []
            then viewDiscover (DISCOVER_COMMANDS ! length (t_sent ?v2)) (discoveryView ?v2)
            else discoveryView ?v2)
      else if length (t_failed ?v2) = 0 \<or> length (t_sent ?v2) \<noteq> length DISCOVER_COMMANDS
        then viewComplete (discoveryView ?v2)
      else (case find (\<lambda>f. length (filter (\<lambda>cmd. cmd = f) (t_sent ?v2)) = 1) (t_failed ?v2) of
                 Some failedCommand \<Rightarrow> viewDiscover failedCommand (discoveryView ?v2)
               | None \<Rightarrow> viewComplete (discoveryView ?v2)))"
    unfolding w
    by (simp add: viewResponse_def Let_def discoveryView_fields m split: option.splits)
  have next_cmd: "oneTimer (timedSettle (timedSet (NextCommandCallback k) 500 ?v2))
       \<and> discoveryView (timedSettle (timedSet (NextCommandCallback k) 500 ?v2))
           = (if DISCOVER_COMMANDS ! k \<noteq> [] then viewDiscover (DISCOVER_COMMANDS ! k) (discoveryView ?v2)
              else discoveryView ?v2)" if "k < length DISCOVER_COMMANDS" for k
    using that m
    by (simp add: timedSettle_def timedSet_def isPacing_def timedStep_def timedClear_def
          timedCallback_def timedDiscover_def oneTimer_def discoveryView_def viewDiscover_def)
  have retry: "oneTimer (timedSettle (timedSet (RetryCallback f) 1000 ?v2))
       \<and> discoveryView (timedSettle (timedSet (RetryCallback f) 1000 ?v2))
           = viewDiscover f (discoveryView ?v2)" for f
    using m
    by (simp add: timedSettle_def timedSet_def isPacing_def timedStep_def timedClear_def
          timedCallback_def timedDiscover_def oneTimer_def discoveryView_def viewDiscover_def)
  have complete: "oneTimer (timedSettle (timedComplete ?v2))
       \<and> discoveryView (timedSettle (timedComplete ?v2)) = viewComplete (discoveryView ?v2)"
    using m
    by (simp add: timedSettle_def timedComplete_def oneTimer_def discoveryView_def
          viewComplete_def)
  show ?thesis
    unfolding r q
    using next_cmd [of "length (t_sent ?v2)"] retry complete
    by (simp split: option.splits)
qed

text \<open>An answer while the timeout of a query is set: the timeout is cleared.\<close>

lemma timedResponse_clear:
  assumes "t_timers v = [(h, delay, TimeoutCallback d)]" and "t_timeout v = Some h"
  shows "timedResponse a v = timedResponse a (v\<lparr>t_timers := [], t_timeout := None\<rparr>)"
    and "viewResponse a (discoveryView v)
           = viewResponse a (discoveryView (v\<lparr>t_timers := [], t_timeout := None\<rparr>))"
  using assms
  by (simp_all add: timedResponse_def timedClear_def viewResponse_def discoveryView_def Let_def)

text \<open>The timeout of the outstanding query, and the pacing timer it sets.\<close>

lemma timedTimeout_settle:
  assumes "t_timers v = [(h, delay, TimeoutCallback d)]" and "t_timeout v = Some h"
  shows "oneTimer (timedSettle (timedStep (Fire now h) v))
       \<and> discoveryView (timedSettle (timedStep (Fire now h) v)) = viewTimeout d (discoveryView v)"
proof -
  let ?v1 = "v\<lparr>t_timers := [],
               t_failed := (if d \<in> set (t_failed v) then t_failed v else t_failed v @ [d]),
               t_timeout := None\<rparr>"
  have f: "timedStep (Fire now h) v =
      (if length (t_sent v) < length DISCOVER_COMMANDS
       then timedSet (NextCommandCallback (length (t_sent v))) 1000 ?v1
       else timedComplete ?v1)"
    using assms
    by (simp add: timedStep_def timedClear_def timedCallback_def timedTimeout_def Let_def)
  have q: "viewTimeout d (discoveryView v) =
      (if length (t_sent v) < length DISCOVER_COMMANDS then
         (if DISCOVER_COMMANDS ! length (t_sent v) \<noteq> []
          then viewDiscover (DISCOVER_COMMANDS ! length (t_sent v)) (discoveryView ?v1)
          else discoveryView ?v1)
       else viewComplete (discoveryView ?v1))"
    using assms by (simp add: viewTimeout_def Let_def discoveryView_def)
  have next_cmd: "oneTimer (timedSettle (timedSet (NextCommandCallback k) 1000 ?v1))
       \<and> discoveryView (timedSettle (timedSet (NextCommandCallback k) 1000 ?v1))
           = (if DISCOVER_COMMANDS ! k \<noteq> [] then viewDiscover (DISCOVER_COMMANDS ! k) (discoveryView ?v1)
              else discoveryView ?v1)" if "k < length DISCOVER_COMMANDS" for k
    using that
    by (simp add: timedSettle_def timedSet_def isPacing_def timedStep_def timedClear_def
          timedCallback_def timedDiscover_def oneTimer_def discoveryView_def viewDiscover_def)
  have complete: "oneTimer (timedSettle (timedComplete ?v1))
       \<and> discoveryView (timedSettle (timedComplete ?v1)) = viewComplete (discoveryView ?v1)"
    by (simp add: timedSettle_def timedComplete_def oneTimer_def discoveryView_def
          viewComplete_def)
  show ?thesis
    unfolding f q
    using next_cmd [of "length (t_sent v)"] complete by simp
qed

text \<open>
  In an undisturbed discovery one timer at most stays set, and the events act on the
  five fields as viewStep says.
\<close>

lemma timedUndisturbed_view:
  assumes "oneTimer v"
  shows "oneTimer (timedUndisturbed e v)
       \<and> discoveryView (timedUndisturbed e v) = viewStep e (discoveryView v)"
  using assms
proof (cases rule: oneTimer_cases)
  case idle
  show ?thesis
  proof (cases e)
    case (Response now a)
    then show ?thesis
      using timedResponse_idle [OF idle, of a]
      by (simp add: timedUndisturbed_def timedStep_def viewStep_def)
  next
    case (Timeout now)
    then show ?thesis
      using idle assms by (simp add: timedUndisturbed_def viewStep_def discoveryView_def)
  qed
next
  case (waiting h delay d)
  show ?thesis
  proof (cases e)
    case (Response now a)
    let ?w = "v\<lparr>t_timers := [], t_timeout := None\<rparr>"
    have "oneTimer (timedSettle (timedResponse a ?w))
       \<and> discoveryView (timedSettle (timedResponse a ?w)) = viewResponse a (discoveryView ?w)"
      by (rule timedResponse_idle) simp_all
    then show ?thesis
      using Response timedResponse_clear [OF waiting, of a]
      by (simp add: timedUndisturbed_def timedStep_def viewStep_def)
  next
    case (Timeout now)
    have "d_timeout (discoveryView v) = Some d"
      using waiting by (simp add: discoveryView_def)
    then show ?thesis
      using Timeout waiting timedTimeout_settle [OF waiting, of now]
      by (simp add: timedUndisturbed_def viewStep_def)
  qed
qed

lemma timedUndisturbed_run:
  assumes "oneTimer v"
  shows "oneTimer (foldl (\<lambda>w e. timedUndisturbed e w) v es)
       \<and> discoveryView (foldl (\<lambda>w e. timedUndisturbed e w) v es)
           = foldl (\<lambda>w e. viewStep e w) (discoveryView v) es"
  using assms
proof (induction es arbitrary: v)
  case Nil
  then show ?case by simp
next
  case (Cons e es)
  have s: "oneTimer (timedUndisturbed e v)"
    "discoveryView (timedUndisturbed e v) = viewStep e (discoveryView v)"
    using timedUndisturbed_view [OF Cons.prems, of e] by simp_all
  show ?case
    using Cons.IH [OF s(1)] s(2) by simp
qed

subsection \<open>The course of an undisturbed discovery\<close>

lemma commands_facts:
  "length DISCOVER_COMMANDS = 7" "distinct DISCOVER_COMMANDS"
  "\<forall>x \<in> set DISCOVER_COMMANDS. x \<noteq> []"
  by (simp_all add: DISCOVER_COMMANDS_def)

lemma command_nth_nonempty: "k < 7 \<Longrightarrow> DISCOVER_COMMANDS ! k \<noteq> []"
  using commands_facts(1,3) nth_mem [of k DISCOVER_COMMANDS] by auto

lemma take_command_next:
  "k < 7 \<Longrightarrow> take k DISCOVER_COMMANDS @ [DISCOVER_COMMANDS ! k] = take (Suc k) DISCOVER_COMMANDS"
  using commands_facts(1) by (simp add: take_Suc_conv_app_nth)

lemma command_nth_fresh:
  assumes "k < 7" shows "DISCOVER_COMMANDS ! k \<notin> set (take k DISCOVER_COMMANDS)"
proof
  assume "DISCOVER_COMMANDS ! k \<in> set (take k DISCOVER_COMMANDS)"
  then obtain i where i: "i < k" "take k DISCOVER_COMMANDS ! i = DISCOVER_COMMANDS ! k"
    using commands_facts(1) assms by (auto simp add: in_set_conv_nth)
  then have "DISCOVER_COMMANDS ! i = DISCOVER_COMMANDS ! k" by simp
  then have "i = k"
    using commands_facts(1,2) assms i(1) by (simp add: nth_eq_iff_index_eq)
  then show False using i(1) by simp
qed

lemma filter_eq_distinct:
  "distinct xs \<Longrightarrow> length (filter (\<lambda>x. x = f) xs) = (if f \<in> set xs then 1 else 0)"
  by (induction xs) auto

lemma count_commands:
  "length (filter (\<lambda>cmd. cmd = f) DISCOVER_COMMANDS) = (if f \<in> set DISCOVER_COMMANDS then 1 else 0)"
  using commands_facts(2) by (rule filter_eq_distinct)

lemma find_SomeD: "find P xs = Some x \<Longrightarrow> x \<in> set xs \<and> P x"
  by (induction xs) (auto split: if_splits)

text \<open>A completion hands over the answer accumulated by then.\<close>

lemma viewStep_completions:
  "d_completions (viewStep e v) = d_completions v
   \<or> d_completions (viewStep e v) = d_completions v @ [d_buffer (viewStep e v)]"
proof (cases e)
  case (Response now answer)
  then show ?thesis
    by (simp add: viewStep_def viewResponse_def viewComplete_def viewDiscover_def Let_def
          split: option.splits)
next
  case (Timeout now)
  then show ?thesis
    by (simp add: viewStep_def viewTimeout_def viewComplete_def viewDiscover_def Let_def
          split: option.splits)
qed

text \<open>The step of a cycle that waits for one of the first six commands.\<close>

lemma viewStep_early:
  assumes "d_timeout v = Some d" and "d_sent v = take k DISCOVER_COMMANDS" and "1 \<le> k" and "k < 7"
  shows "d_sent (viewStep e v) = take (Suc k) DISCOVER_COMMANDS
       \<and> d_timeout (viewStep e v) = Some (DISCOVER_COMMANDS ! k)
       \<and> d_completions (viewStep e v) = d_completions v"
proof -
  have len: "length (d_sent v) = k"
    using assms(2,4) commands_facts(1) by simp
  show ?thesis
  proof (cases e)
    case (Timeout now)
    then show ?thesis
      using assms len command_nth_nonempty [of k] take_command_next [of k]
      by (simp add: viewStep_def viewTimeout_def viewDiscover_def Let_def commands_facts(1))
  next
    case (Response now answer)
    then show ?thesis
      using assms len command_nth_nonempty [of k] take_command_next [of k]
      by (simp add: viewStep_def viewResponse_def viewDiscover_def Let_def commands_facts(1)
            split: option.splits)
  qed
qed

text \<open>
  A step when the seven commands have been sent: nothing happens (a timeout that is not
  pending), or the cycle completes, or the first failed command is sent again.
\<close>

lemma viewStep_last:
  assumes "d_sent v = DISCOVER_COMMANDS"
  shows "(viewStep e v = v \<and> d_timeout v = None)
       \<or> (d_timeout (viewStep e v) = None \<and> d_sent (viewStep e v) = DISCOVER_COMMANDS
          \<and> d_completions (viewStep e v) = d_completions v @ [d_buffer (viewStep e v)]
          \<and> set (d_failed v) \<subseteq> set (d_failed (viewStep e v)))
       \<or> (\<exists>f. f \<in> set DISCOVER_COMMANDS \<and> f \<in> set (d_failed v)
              \<and> d_failed (viewStep e v) = d_failed v
              \<and> d_sent (viewStep e v) = DISCOVER_COMMANDS @ [f]
              \<and> d_timeout (viewStep e v) = Some f
              \<and> d_completions (viewStep e v) = d_completions v)"
proof (cases e)
  case (Timeout now)
  then show ?thesis
    using assms
    by (cases "d_timeout v")
       (auto simp add: viewStep_def viewTimeout_def viewComplete_def Let_def commands_facts(1))
next
  case (Response now answer)
  let ?v2 = "(case d_buffer v of
                  None \<Rightarrow> v\<lparr>d_timeout := None, d_buffer := map_option (\<lambda>a. [a]) answer\<rparr>
                | Some merged \<Rightarrow>
                    (case answer of
                       None \<Rightarrow> v\<lparr>d_timeout := None\<rparr>
                     | Some a \<Rightarrow> v\<lparr>d_timeout := None, d_buffer := Some (merged @ [a])\<rparr>))"
  have v2: "d_sent ?v2 = DISCOVER_COMMANDS" "d_failed ?v2 = d_failed v"
    "d_timeout ?v2 = None" "d_completions ?v2 = d_completions v"
    using assms by (simp_all split: option.splits)
  have step: "viewStep e v =
      (if d_failed v = [] then viewComplete ?v2
       else (case find (\<lambda>f. length (filter (\<lambda>cmd. cmd = f) DISCOVER_COMMANDS) = 1) (d_failed v) of
               Some failedCommand \<Rightarrow> viewDiscover failedCommand ?v2
             | None \<Rightarrow> viewComplete ?v2))"
    using assms Response
    by (simp add: viewStep_def viewResponse_def Let_def commands_facts(1) split: option.splits)
  have compl: "d_timeout (viewComplete ?v2) = None \<and> d_sent (viewComplete ?v2) = DISCOVER_COMMANDS
          \<and> d_completions (viewComplete ?v2) = d_completions v @ [d_buffer (viewComplete ?v2)]
          \<and> set (d_failed v) \<subseteq> set (d_failed (viewComplete ?v2))"
    using v2 by (simp add: viewComplete_def)
  show ?thesis
  proof (cases "d_failed v = []")
    case True
    then show ?thesis using step compl by simp
  next
    case False
    show ?thesis
    proof (cases "find (\<lambda>f. length (filter (\<lambda>cmd. cmd = f) DISCOVER_COMMANDS) = 1) (d_failed v)")
      case None
      then show ?thesis using step compl False by simp
    next
      case (Some f)
      have f: "f \<in> set (d_failed v)" "f \<in> set DISCOVER_COMMANDS"
        using find_SomeD [OF Some] by (simp_all add: count_commands split: if_splits)
      have "viewStep e v = viewDiscover f ?v2"
        using step False Some by simp
      then show ?thesis
        using f v2 by (simp add: viewDiscover_def)
    qed
  qed
qed

text \<open>A step after the retry: nothing happens, or the cycle completes.\<close>

lemma viewStep_retry:
  assumes "d_sent v = DISCOVER_COMMANDS @ [f]"
  shows "(viewStep e v = v \<and> d_timeout v = None)
       \<or> (d_timeout (viewStep e v) = None \<and> d_sent (viewStep e v) = DISCOVER_COMMANDS @ [f]
          \<and> d_completions (viewStep e v) = d_completions v @ [d_buffer (viewStep e v)]
          \<and> set (d_failed v) \<subseteq> set (d_failed (viewStep e v)))"
proof (cases e)
  case (Timeout now)
  then show ?thesis
    using assms
    by (cases "d_timeout v")
       (auto simp add: viewStep_def viewTimeout_def viewComplete_def Let_def commands_facts(1))
next
  case (Response now answer)
  then show ?thesis
    using assms
    by (simp add: viewStep_def viewResponse_def viewComplete_def Let_def commands_facts(1)
          split: option.splits)
qed

text \<open>
  The steps keep a cycle within its course, and each one brings its completion nearer.
\<close>

lemma inCycle_step:
  assumes "inCycle c0 v"
  shows "inCycle c0 (viewStep e v) \<and> cycleRank c0 (viewStep e v) \<le> cycleRank c0 v - 1"
proof -
  consider
      (early) d k where "length (d_completions v) = c0" "d_timeout v = Some d"
        "d_sent v = take k DISCOVER_COMMANDS" "1 \<le> k" "k < 7"
    | (full) "d_sent v = DISCOVER_COMMANDS"
        "length (d_completions v) = c0 \<and> d_timeout v \<noteq> None \<or> c0 < length (d_completions v)"
    | (retry) f where "f \<in> set DISCOVER_COMMANDS" "f \<in> set (d_failed v)"
        "d_sent v = DISCOVER_COMMANDS @ [f]"
        "length (d_completions v) = c0 \<and> d_timeout v \<noteq> None \<or> c0 < length (d_completions v)"
  proof -
    have b: "(\<exists>k. 1 \<le> k \<and> k \<le> 7 \<and> d_sent v = take k DISCOVER_COMMANDS
                \<and> length (d_completions v) = c0 \<and> d_timeout v \<noteq> None)
           \<or> (d_sent v = DISCOVER_COMMANDS \<and> c0 < length (d_completions v))
           \<or> (\<exists>f. f \<in> set DISCOVER_COMMANDS \<and> f \<in> set (d_failed v)
                  \<and> d_sent v = DISCOVER_COMMANDS @ [f]
                  \<and> (length (d_completions v) = c0 \<and> d_timeout v \<noteq> None
                      \<or> c0 < length (d_completions v)))"
      using assms unfolding inCycle_def by blast
    from b show ?thesis
    proof (elim disjE exE conjE)
      fix k
      assume k: "1 \<le> k" "k \<le> 7" "d_sent v = take k DISCOVER_COMMANDS"
        "length (d_completions v) = c0" "d_timeout v \<noteq> None"
      then obtain d where d: "d_timeout v = Some d" by blast
      show ?thesis
      proof (cases "k < 7")
        case True
        show ?thesis by (rule early [OF k(4) d k(3) k(1) True])
      next
        case False
        then have "d_sent v = DISCOVER_COMMANDS"
          using k commands_facts(1) by simp
        moreover have "length (d_completions v) = c0 \<and> d_timeout v \<noteq> None
            \<or> c0 < length (d_completions v)"
          using k(4,5) by simp
        ultimately show ?thesis by (rule full)
      qed
    next
      assume "d_sent v = DISCOVER_COMMANDS" "c0 < length (d_completions v)"
      then show ?thesis by (intro full) simp_all
    next
      fix f
      assume "f \<in> set DISCOVER_COMMANDS" "f \<in> set (d_failed v)"
        "d_sent v = DISCOVER_COMMANDS @ [f]"
        "length (d_completions v) = c0" "d_timeout v \<noteq> None"
      then show ?thesis by (intro retry [of f]) simp_all
    next
      fix f
      assume "f \<in> set DISCOVER_COMMANDS" "f \<in> set (d_failed v)"
        "d_sent v = DISCOVER_COMMANDS @ [f]" "c0 < length (d_completions v)"
      then show ?thesis by (intro retry [of f]) simp_all
    qed
  qed
  then show ?thesis
  proof cases
    case early
    have s: "d_sent (viewStep e v) = take (Suc k) DISCOVER_COMMANDS"
      "d_timeout (viewStep e v) = Some (DISCOVER_COMMANDS ! k)"
      "d_completions (viewStep e v) = d_completions v"
      using viewStep_early [OF early(2,3,4,5), of e] by simp_all
    have "\<exists>j. 1 \<le> j \<and> j \<le> 7 \<and> d_sent (viewStep e v) = take j DISCOVER_COMMANDS"
      using s(1) early(5) by (intro exI [of _ "Suc k"]) simp
    then have "inCycle c0 (viewStep e v)"
      using s early(1) by (simp add: inCycle_def)
    moreover have "cycleRank c0 (viewStep e v) \<le> cycleRank c0 v - 1"
      using s early commands_facts(1) by (simp add: cycleRank_def)
    ultimately show ?thesis by simp
  next
    case full
    from viewStep_last [OF full(1), of e] show ?thesis
    proof (elim disjE exE conjE)
      assume same: "viewStep e v = v" "d_timeout v = None"
      then have "c0 < length (d_completions v)" using full(2) by simp
      then show ?thesis using same assms by (simp add: cycleRank_def)
    next
      assume c: "d_timeout (viewStep e v) = None" "d_sent (viewStep e v) = DISCOVER_COMMANDS"
        "d_completions (viewStep e v) = d_completions v @ [d_buffer (viewStep e v)]"
        "set (d_failed v) \<subseteq> set (d_failed (viewStep e v))"
      have g: "c0 < length (d_completions (viewStep e v))"
        using c(3) full(2) by auto
      then show ?thesis
        using c(2) by (simp add: inCycle_def cycleRank_def)
    next
      fix f
      assume f: "f \<in> set DISCOVER_COMMANDS" "f \<in> set (d_failed v)"
        "d_failed (viewStep e v) = d_failed v" "d_sent (viewStep e v) = DISCOVER_COMMANDS @ [f]"
        "d_timeout (viewStep e v) = Some f" "d_completions (viewStep e v) = d_completions v"
      have "inCycle c0 (viewStep e v)"
        using f full(2) unfolding inCycle_def by auto
      moreover have "cycleRank c0 (viewStep e v) \<le> cycleRank c0 v - 1"
        using f full commands_facts(1) by (auto simp add: cycleRank_def)
      ultimately show ?thesis by simp
    qed
  next
    case retry
    from viewStep_retry [OF retry(3), of e] show ?thesis
    proof (elim disjE conjE)
      assume same: "viewStep e v = v" "d_timeout v = None"
      then have "c0 < length (d_completions v)" using retry(4) by simp
      then show ?thesis using same assms by (simp add: cycleRank_def)
    next
      assume c: "d_timeout (viewStep e v) = None" "d_sent (viewStep e v) = DISCOVER_COMMANDS @ [f]"
        "d_completions (viewStep e v) = d_completions v @ [d_buffer (viewStep e v)]"
        "set (d_failed v) \<subseteq> set (d_failed (viewStep e v))"
      have g: "c0 < length (d_completions (viewStep e v))"
        using c(3) retry(4) by auto
      have "f \<in> set (d_failed (viewStep e v))"
        using c(4) retry(2) by blast
      then have "inCycle c0 (viewStep e v)"
        using g c(2) retry(1) unfolding inCycle_def by auto
      then show ?thesis
        using g by (simp add: cycleRank_def)
    qed
  qed
qed

lemma inCycle_run:
  assumes "inCycle c0 v"
  shows "inCycle c0 (foldl (\<lambda>w e. viewStep e w) v es)
       \<and> cycleRank c0 (foldl (\<lambda>w e. viewStep e w) v es) \<le> cycleRank c0 v - length es"
  using assms
proof (induction es arbitrary: v)
  case Nil
  then show ?case by simp
next
  case (Cons e es)
  have s: "inCycle c0 (viewStep e v)" "cycleRank c0 (viewStep e v) \<le> cycleRank c0 v - 1"
    using inCycle_step [OF Cons.prems, of e] by simp_all
  have i: "inCycle c0 (foldl (\<lambda>w e. viewStep e w) (viewStep e v) es)"
    "cycleRank c0 (foldl (\<lambda>w e. viewStep e w) (viewStep e v) es)
       \<le> cycleRank c0 (viewStep e v) - length es"
    using Cons.IH [OF s(1)] by simp_all
  have "cycleRank c0 (foldl (\<lambda>w e. viewStep e w) (viewStep e v) es)
          \<le> cycleRank c0 v - Suc (length es)"
    using i(2) s(2) by arith
  then show ?case
    using i(1) by simp
qed

lemma filter_eq_take:
  assumes "distinct xs" shows "length (filter (\<lambda>x. x = f) (take k xs)) \<le> 1"
proof -
  have "distinct (take k xs)" using assms by simp
  then show ?thesis by (simp add: filter_eq_distinct)
qed

lemma inCycle_sent:
  assumes "inCycle c0 v"
  shows "(\<exists>k. k \<le> 7 \<and> d_sent v = take k DISCOVER_COMMANDS)
        \<or> (\<exists>f. d_sent v = DISCOVER_COMMANDS @ [f])"
proof -
  have "d_sent v = DISCOVER_COMMANDS \<Longrightarrow> \<exists>k. k \<le> 7 \<and> d_sent v = take k DISCOVER_COMMANDS"
    using commands_facts(1) by (intro exI [of _ 7]) simp
  then show ?thesis
    using assms unfolding inCycle_def by blast
qed

lemma inCycle_counts:
  assumes "inCycle c0 v"
  shows "length (filter (\<lambda>cmd. cmd = c) (d_sent v)) \<le> 2 \<and> length (d_sent v) \<le> 8"
  using inCycle_sent [OF assms]
proof
  assume "\<exists>k. k \<le> 7 \<and> d_sent v = take k DISCOVER_COMMANDS"
  then obtain k where k: "k \<le> 7" "d_sent v = take k DISCOVER_COMMANDS" by blast
  show ?thesis
    using k filter_eq_take [OF commands_facts(2), of c k] commands_facts(1) by simp
next
  assume "\<exists>f. d_sent v = DISCOVER_COMMANDS @ [f]"
  then obtain f where f: "d_sent v = DISCOVER_COMMANDS @ [f]" by blast
  show ?thesis
    using f count_commands [of c] commands_facts(1) by simp
qed

lemma inCycle_resend:
  assumes "inCycle c0 v" and "d_sent (viewStep e v) = d_sent v @ [f]" and "f \<in> set (d_sent v)"
  shows "d_sent v = DISCOVER_COMMANDS \<and> length (filter (\<lambda>cmd. cmd = f) (d_sent v)) = 1
       \<and> f \<in> set (d_failed v)"
proof -
  have b: "(\<exists>k. 1 \<le> k \<and> k < 7 \<and> d_sent v = take k DISCOVER_COMMANDS \<and> d_timeout v \<noteq> None)
           \<or> d_sent v = DISCOVER_COMMANDS
           \<or> (\<exists>g. d_sent v = DISCOVER_COMMANDS @ [g])"
  proof -
    have "k \<le> 7 \<Longrightarrow> \<not> k < 7 \<Longrightarrow> take k DISCOVER_COMMANDS = DISCOVER_COMMANDS" for k
      using commands_facts(1) by simp
    then show ?thesis
      using assms(1) unfolding inCycle_def by (metis)
  qed
  from b show ?thesis
  proof (elim disjE exE conjE)
    fix k
    assume k: "1 \<le> k" "k < 7" "d_sent v = take k DISCOVER_COMMANDS" "d_timeout v \<noteq> None"
    then obtain d where d: "d_timeout v = Some d" by blast
    have "d_sent (viewStep e v) = take k DISCOVER_COMMANDS @ [DISCOVER_COMMANDS ! k]"
      using viewStep_early [OF d k(3) k(1) k(2), of e] take_command_next [OF k(2)] by simp
    then have "f = DISCOVER_COMMANDS ! k"
      using assms(2) k(3) by simp
    then show ?thesis
      using assms(3) k(3) command_nth_fresh [OF k(2)] by simp
  next
    assume all: "d_sent v = DISCOVER_COMMANDS"
    from viewStep_last [OF all, of e] show ?thesis
    proof (elim disjE exE conjE)
      assume "viewStep e v = v"
      then show ?thesis using assms(2) by simp
    next
      assume "d_sent (viewStep e v) = DISCOVER_COMMANDS"
      then show ?thesis using assms(2) all by simp
    next
      fix g
      assume g: "g \<in> set DISCOVER_COMMANDS" "g \<in> set (d_failed v)"
        "d_sent (viewStep e v) = DISCOVER_COMMANDS @ [g]"
      have "f = g" using g(3) assms(2) all by simp
      then show ?thesis
        using g all count_commands [of g] by simp
    qed
  next
    fix g
    assume g: "d_sent v = DISCOVER_COMMANDS @ [g]"
    from viewStep_retry [OF g, of e] show ?thesis
    proof (elim disjE conjE)
      assume "viewStep e v = v"
      then show ?thesis using assms(2) by simp
    next
      assume "d_sent (viewStep e v) = DISCOVER_COMMANDS @ [g]"
      then show ?thesis using assms(2) g by simp
    qed
  qed
qed

lemma inCycle_complete:
  assumes "inCycle c0 v" and "cycleRank c0 v = 0"
  shows "c0 < length (d_completions v)"
  using assms inCycle_counts [OF assms(1), of undefined]
  by (cases "c0 < length (d_completions v)") (simp_all add: cycleRank_def)

lemma platform_fields:
  "d_sent (discoveryView (timedView st)) = discoverCommandsSent st"
  "d_failed (discoveryView (timedView st)) = discoverCommandsFailed st"
  "d_buffer (discoveryView (timedView st)) = discoveryBuffer st"
  "d_completions (discoveryView (timedView st)) = completions st"
  by (simp_all add: discoveryView_def timedView_def)

lemma undisturbedStep_fields:
  assumes "oneTimer (timedView st)"
  shows "discoveryView (timedView (undisturbedStep send gen e st))
           = viewStep e (discoveryView (timedView st))"
  using timedUndisturbed_view [OF assms, of e] by (simp add: undisturbedStep_view)

lemma undisturbedRun_fields:
  assumes "oneTimer (timedView st)"
  shows "oneTimer (timedView (undisturbedRun send gen es st))
       \<and> discoveryView (timedView (undisturbedRun send gen es st))
           = foldl (\<lambda>w e. viewStep e w) (discoveryView (timedView st)) es"
  using timedUndisturbed_run [OF assms, of es] by (simp add: undisturbedRun_view)

lemma start_timed:
  "timedView (handleConnectionEstablished send gen now st)
     = \<lparr> t_sent = take 1 DISCOVER_COMMANDS, t_failed = discoverCommandsFailed st,
         t_timeout = Some (timerCount st), t_buffer = None, t_completions = completions st,
         t_timers = timers st @ [(timerCount st, 30000, TimeoutCallback ''CIRCUITS'')],
         t_timerCount = timerCount st + 1 \<rparr>"
  by (simp add: handleConnectionEstablished_def discoverDevices_def DISCOVER_COMMANDS_def
        discoverDeviceType_view timedDiscover_def timedSet_def)
     (simp add: timedView_def resetDiscoveryState_def)

lemma start_oneTimer:
  "timers st = [] \<Longrightarrow> oneTimer (timedView (handleConnectionEstablished send gen now st))"
  unfolding start_timed by (simp add: oneTimer_def isPacing_def)

lemma start_view:
  "timers st = [] \<Longrightarrow>
   discoveryView (timedView (handleConnectionEstablished send gen now st))
     = \<lparr> d_sent = take 1 DISCOVER_COMMANDS, d_failed = discoverCommandsFailed st,
         d_timeout = Some ''CIRCUITS'', d_buffer = None, d_completions = completions st \<rparr>"
  unfolding start_timed by (simp add: discoveryView_def)

lemma start_inCycle:
  "inCycle c0 \<lparr> d_sent = take 1 DISCOVER_COMMANDS, d_failed = F,
         d_timeout = Some ''CIRCUITS'', d_buffer = None, d_completions = C \<rparr>
     = (length C = c0 \<or> c0 < length C \<and> take 1 DISCOVER_COMMANDS = DISCOVER_COMMANDS)"
  unfolding inCycle_def
  by (auto simp add: DISCOVER_COMMANDS_def intro: exI [of _ 1])

lemma start_rank:
  "cycleRank (length C) \<lparr> d_sent = take 1 DISCOVER_COMMANDS, d_failed = F,
         d_timeout = Some ''CIRCUITS'', d_buffer = None, d_completions = C \<rparr> = 8"
  by (simp add: cycleRank_def commands_facts(1))

text \<open>
  The undisturbed discovery. In a discovery cycle, started by handleConnectionEstablished
  with no timer set, in which every pacing timer fires before the next answer or
  timeout, whatever the answers and timeouts are: no command is sent more than twice
  (and at most eight commands are sent), so a command that timed out is sent again at
  most once; an event sends a command again only when the commands sent are exactly the
  seven of the list, the command occurs exactly once among them (shouldRetryCommand) and
  it is in the list of failed commands; every completion hands to transformPanels the
  answer accumulated by then; and after eight events the cycle has completed.
\<close>

theorem undisturbed_discovery_retries_once:
  assumes "timers st = []"
  shows "(\<forall>c. length (filter (\<lambda>cmd. cmd = c)
        (discoverCommandsSent (undisturbedRun send gen es (handleConnectionEstablished send gen now st)))) \<le> 2)
   \<and> length (discoverCommandsSent (undisturbedRun send gen es (handleConnectionEstablished send gen now st))) \<le> 8
   \<and> (\<forall>e f.
        discoverCommandsSent (undisturbedStep send gen e
            (undisturbedRun send gen es (handleConnectionEstablished send gen now st)))
          = discoverCommandsSent (undisturbedRun send gen es (handleConnectionEstablished send gen now st)) @ [f]
        \<and> f \<in> set (discoverCommandsSent (undisturbedRun send gen es (handleConnectionEstablished send gen now st)))
        \<longrightarrow>
          discoverCommandsSent (undisturbedRun send gen es (handleConnectionEstablished send gen now st))
            = DISCOVER_COMMANDS
          \<and> shouldRetryCommand (undisturbedRun send gen es (handleConnectionEstablished send gen now st)) f
          \<and> f \<in> set (discoverCommandsFailed
                (undisturbedRun send gen es (handleConnectionEstablished send gen now st))))
   \<and> (\<forall>e.
        completions (undisturbedStep send gen e
            (undisturbedRun send gen es (handleConnectionEstablished send gen now st)))
          = completions (undisturbedRun send gen es (handleConnectionEstablished send gen now st))
        \<or> completions (undisturbedStep send gen e
            (undisturbedRun send gen es (handleConnectionEstablished send gen now st)))
          = completions (undisturbedRun send gen es (handleConnectionEstablished send gen now st))
            @ [discoveryBuffer (undisturbedStep send gen e
                 (undisturbedRun send gen es (handleConnectionEstablished send gen now st)))])
   \<and> (8 \<le> length es \<longrightarrow>
        length (completions st)
          < length (completions (undisturbedRun send gen es (handleConnectionEstablished send gen now st))))"
proof -
  let ?st0 = "handleConnectionEstablished send gen now st"
  let ?st1 = "undisturbedRun send gen es ?st0"
  let ?v = "discoveryView (timedView ?st1)"
  have one: "oneTimer (timedView ?st1)"
    and v: "?v = foldl (\<lambda>w e. viewStep e w) (discoveryView (timedView ?st0)) es"
    using undisturbedRun_fields [OF start_oneTimer [OF assms], of send gen es send gen now]
    by simp_all
  have inc: "inCycle (length (completions st)) ?v"
    and rank: "cycleRank (length (completions st)) ?v \<le> 8 - length es"
    unfolding v start_view [OF assms]
    using inCycle_run [of "length (completions st)"
        "\<lparr> d_sent = take 1 DISCOVER_COMMANDS, d_failed = discoverCommandsFailed st,
         d_timeout = Some ''CIRCUITS'', d_buffer = None, d_completions = completions st \<rparr>" es]
    by (simp_all only: start_inCycle start_rank simp_thms)
  have a: "length (filter (\<lambda>cmd. cmd = c) (discoverCommandsSent ?st1)) \<le> 2" for c
    using inCycle_counts [OF inc, of c] by (simp add: platform_fields)
  have b: "length (discoverCommandsSent ?st1) \<le> 8"
    using inCycle_counts [OF inc, of undefined] by (simp add: platform_fields)
  have c: "discoverCommandsSent ?st1 = DISCOVER_COMMANDS \<and> shouldRetryCommand ?st1 f
           \<and> f \<in> set (discoverCommandsFailed ?st1)"
    if "discoverCommandsSent (undisturbedStep send gen e ?st1) = discoverCommandsSent ?st1 @ [f]"
      and "f \<in> set (discoverCommandsSent ?st1)" for e f
  proof -
    have s: "d_sent (viewStep e ?v) = d_sent ?v @ [f]"
      using that(1) platform_fields(1) [of "undisturbedStep send gen e ?st1"]
      by (simp add: undisturbedStep_fields [OF one] platform_fields)
    have m: "f \<in> set (d_sent ?v)"
      using that(2) by (simp add: platform_fields)
    have r: "d_sent ?v = DISCOVER_COMMANDS" "length (filter (\<lambda>cmd. cmd = f) (d_sent ?v)) = 1"
      "f \<in> set (d_failed ?v)"
      using inCycle_resend [OF inc s m] by blast+
    have r1: "discoverCommandsSent ?st1 = DISCOVER_COMMANDS"
      using r(1) by (simp only: platform_fields)
    have r2: "shouldRetryCommand ?st1 f"
      using r(2) by (simp only: platform_fields shouldRetryCommand_def)
    have r3: "f \<in> set (discoverCommandsFailed ?st1)"
      using r(3) by (simp only: platform_fields)
    show ?thesis
      using r1 r2 r3 by blast
  qed
  have d: "completions (undisturbedStep send gen e ?st1) = completions ?st1
         \<or> completions (undisturbedStep send gen e ?st1)
              = completions ?st1 @ [discoveryBuffer (undisturbedStep send gen e ?st1)]" for e
    using viewStep_completions [of e ?v]
      platform_fields(3,4) [of "undisturbedStep send gen e ?st1"]
    by (simp add: undisturbedStep_fields [OF one] platform_fields)
  have e: "length (completions st) < length (completions ?st1)" if "8 \<le> length es"
  proof -
    have "cycleRank (length (completions st)) ?v = 0" using rank that by simp
    then show ?thesis
      using inCycle_complete [OF inc] by (simp add: platform_fields)
  qed
  show ?thesis
    using a b c d e by blast
qed

text \<open>
  The example cycle: PUMPS and SENSORS time out; after the answer to the seventh query,
  PUMPS, the first failed command, is sent again and answered, and the cycle completes
  with the six answers. SENSORS is not sent again.
\<close>

lemma example_cycle_view:
  "discoveryView (timedView (undisturbedRun exampleSend exampleGen exampleEvents
      (handleConnectionEstablished exampleSend exampleGen 0 platform0)))
   = \<lparr> d_sent = DISCOVER_COMMANDS @ [''PUMPS''], d_failed = [''PUMPS'', ''SENSORS''],
       d_timeout = None,
       d_buffer = Some [''circuits'', ''chems'', ''valves'', ''heaters'', ''groups'', ''pumps''],
       d_completions = [Some [''circuits'', ''chems'', ''valves'', ''heaters'', ''groups'', ''pumps'']] \<rparr>"
proof -
  have t: "timers platform0 = []" by (simp add: platform0_def)
  show ?thesis
    using undisturbedRun_fields [OF start_oneTimer [OF t],
        of exampleSend exampleGen exampleEvents exampleSend exampleGen 0]
    unfolding start_view [OF t]
    by (simp add: exampleEvents_def platform0_def viewStep_def viewResponse_def viewTimeout_def
          viewDiscover_def viewComplete_def DISCOVER_COMMANDS_def Let_def)
qed

lemma undisturbed_example:
  "discoverCommandsSent (undisturbedRun exampleSend exampleGen exampleEvents
      (handleConnectionEstablished exampleSend exampleGen 0 platform0))
     = DISCOVER_COMMANDS @ [''PUMPS'']
   \<and> discoverCommandsFailed (undisturbedRun exampleSend exampleGen exampleEvents
      (handleConnectionEstablished exampleSend exampleGen 0 platform0)) = [''PUMPS'', ''SENSORS'']
   \<and> completions (undisturbedRun exampleSend exampleGen exampleEvents
      (handleConnectionEstablished exampleSend exampleGen 0 platform0))
     = [Some [''circuits'', ''chems'', ''valves'', ''heaters'', ''groups'', ''pumps'']]
   \<and> length exampleEvents = 8 \<and> timers platform0 = []"
  using undisturbed_discovery_retries_once [of platform0 exampleSend exampleGen exampleEvents 0]
    example_cycle_view
    platform_fields [of "undisturbedRun exampleSend exampleGen exampleEvents
      (handleConnectionEstablished exampleSend exampleGen 0 platform0)", symmetric]
  by (simp add: exampleEvents_def platform0_def)

subsection \<open>A disturbed discovery\<close>

lemma race_view:
  "timedView (run exampleSend exampleGen raceInputs
      (handleConnectionEstablished exampleSend exampleGen 0 platform0))
   = \<lparr> t_sent = DISCOVER_COMMANDS @ [''SENSORS'', ''SENSORS''], t_failed = [''SENSORS''],
       t_timeout = Some 16,
       t_buffer = Some [''circuits'', ''pumps'', ''chems'', ''valves'', ''heaters'', ''sensors'',
                        ''groups''],
       t_completions = [],
       t_timers = [(15, 30000, TimeoutCallback ''SENSORS''),
                   (16, 30000, TimeoutCallback ''SENSORS'')],
       t_timerCount = 17 \<rparr>"
  unfolding run_view start_timed
  by (simp add: raceInputs_def platform0_def timedStep_def timedResponse_def timedMerge_def
        timedCallback_def timedTimeout_def timedDiscover_def timedSet_def timedClear_def
        timedComplete_def DISCOVER_COMMANDS_def Let_def)

text \<open>
  C6. The query for SENSORS has timed out, the seven commands have been sent, and the
  answers to the SENSORS query and to the GROUPS query are received one after the other,
  before the pacing timer of the retry fires. Each of the two answers finds SENSORS once
  among the commands sent and sets a timer for its retry, so SENSORS is sent three
  times: the command that timed out is sent again twice, and nine commands are sent.
\<close>

theorem discovery_retry_twice:
  "discoverCommandsSent (run exampleSend exampleGen raceInputs
      (handleConnectionEstablished exampleSend exampleGen 0 platform0))
     = DISCOVER_COMMANDS @ [''SENSORS'', ''SENSORS'']
   \<and> discoverCommandsFailed (run exampleSend exampleGen raceInputs
      (handleConnectionEstablished exampleSend exampleGen 0 platform0)) = [''SENSORS'']
   \<and> length (filter (\<lambda>cmd. cmd = ''SENSORS'')
        (discoverCommandsSent (run exampleSend exampleGen raceInputs
           (handleConnectionEstablished exampleSend exampleGen 0 platform0)))) = 3"
  using race_view
    view_fields(1,2) [of "run exampleSend exampleGen raceInputs
      (handleConnectionEstablished exampleSend exampleGen 0 platform0)", symmetric]
  by (simp add: DISCOVER_COMMANDS_def)

end
